theory Spec2Isabelle
  imports Main "HOL-Library.Product_Lexorder" "HOL-Library.AList"
begin

section \<open>The secretary routine of FirstLady (src/automation/routines/secretary.py)\<close>

text \<open>
  The routine drives a game screen through collaborators that it imports: template
  matching, taps, back navigation, delays, text extraction and the wall clock. They are
  not part of the routine, so the embedding takes them as an environment. Every call of a
  collaborator is recorded as an \<open>event\<close> in a trace, and what a collaborator returns is
  a function of the trace before the call: any deterministic device is such a function,
  and quantifying over all environments covers every sequence of collaborator results.
  A collaborator may raise; its result is then \<open>Inl\<close> of the exception.

  Calls of \<open>app_logger\<close> only format a message; they are left out of the trace.

  Embedded are \<open>exit_to_secretary_menu\<close> with \<open>verify_secretary_menu\<close>,
  \<open>find_accept_buttons\<close>, \<open>find_reject_buttons\<close>, \<open>process_secretary_position\<close>,
  \<open>find_positions_with_applicants\<close> and \<open>find_positions_to_remove\<close>.
\<close>

subsection \<open>Data\<close>

type_synonym point = "int \<times> int"
type_synonym region = "int \<times> int \<times> int \<times> int"
type_synonym image = nat
type_synonym time = int

text \<open>An exception object caught by \<open>except Exception\<close>; the payload is its message.\<close>

datatype exn = PyException string | KeyError string | OverflowError

text \<open>The keys of \<open>CONFIG['timings']\<close> the routine reads.\<close>

datatype timing = tap_delay | menu_animation | settle_time | list_timeout

datatype event =
    FindTemplate string
  | FindAllTemplates string
  | FindAndTapTemplate string "timing option"
  | WaitForImage string timing
  | TakeScreenshot
  | Imread
  | GetTextRegions point image
  | ExtractText region image
  | HumanizedTap int int
  | PressBack
  | HumanDelay timing nat
  | HandleSwipes string
  | LogRejectedAlliance string string
  | PlayBeep
  | Input

record env =
  find_template :: "string \<Rightarrow> event list \<Rightarrow> exn + point option"
  find_all_templates :: "string \<Rightarrow> event list \<Rightarrow> exn + point list"
  find_and_tap_template :: "string \<Rightarrow> timing option \<Rightarrow> event list \<Rightarrow> exn + bool"
  wait_for_image :: "string \<Rightarrow> timing \<Rightarrow> event list \<Rightarrow> exn + point option"
  take_screenshot :: "event list \<Rightarrow> exn + bool"
  imread :: "event list \<Rightarrow> exn + image option"
  get_text_regions :: "point \<Rightarrow> image \<Rightarrow> event list \<Rightarrow> exn + region \<times> region \<times> image"
  extract_text_from_region :: "region \<Rightarrow> image \<Rightarrow> event list \<Rightarrow> exn + string \<times> string"
  humanized_tap :: "int \<Rightarrow> int \<Rightarrow> event list \<Rightarrow> exn + unit"
  press_back :: "event list \<Rightarrow> exn + unit"
  human_delay :: "timing \<Rightarrow> nat \<Rightarrow> event list \<Rightarrow> exn + unit"
  handle_swipes :: "string \<Rightarrow> event list \<Rightarrow> exn + unit"
  log_rejected_alliance :: "string \<Rightarrow> string \<Rightarrow> event list \<Rightarrow> exn + unit"
  play_beep :: "event list \<Rightarrow> exn + unit"
  input :: "event list \<Rightarrow> exn + unit"
  now :: "event list \<Rightarrow> time"

text \<open>
  The state of a \<open>SecretaryRoutine\<close> object that the routine changes: the dictionary
  \<open>self.last_approve\<close>, and the trace of the calls made so far.
\<close>

record state =
  trace :: "event list"
  last_approve :: "string \<rightharpoonup> time"
  manual_deny :: bool

text \<open>
  \<open>CONFIG['auto_remove']\<close>, a JSON object: an optional key is an \<open>option\<close>, and the
  object \<open>title_cfg\<close> (position to delay in seconds) is an association list. The other
  configuration the routine reads is passed where it is read: the list
  \<open>CONTROL_LIST['whitelist']['alliance']\<close>, and the optional \<open>CONFIG['applicant_offset']\<close>.
\<close>

record auto_remove_config =
  active :: "bool option"
  title_cfg :: "(string \<times> int) list option"

definition secretary_types :: "string list" where
  "secretary_types = [''strategy'', ''security'', ''development'', ''science'', ''interior'']"

definition additionalTypes :: "string list" where
  "additionalTypes = [''military'', ''administrative'']"

subsection \<open>Sequencing calls that may raise\<close>

type_synonym 'a prog = "state \<Rightarrow> (exn + 'a) \<times> state"

definition ret :: "'a \<Rightarrow> 'a prog" where
  "ret a s = (Inr a, s)"

definition bnd :: "'a prog \<Rightarrow> ('a \<Rightarrow> 'b prog) \<Rightarrow> 'b prog" where
  "bnd m f s = (case m s of (Inl e, s') \<Rightarrow> (Inl e, s') | (Inr a, s') \<Rightarrow> f a s')"

text \<open>A call of a collaborator: answered from the trace so far, then recorded.\<close>

definition call :: "event \<Rightarrow> (event list \<Rightarrow> exn + 'a) \<Rightarrow> 'a prog" where
  "call ev answer s = (answer (trace s), s\<lparr>trace := trace s @ [ev]\<rparr>)"

text \<open>\<open>self.last_approve[name] = datetime.datetime.now()\<close>\<close>

definition touch_last_approve :: "env \<Rightarrow> string \<Rightarrow> unit prog" where
  "touch_last_approve e name s =
     (Inr (), s\<lparr>last_approve := (last_approve s)(name \<mapsto> now e (trace s))\<rparr>)"

subsection \<open>Recovery: \<open>verify_secretary_menu\<close> and \<open>exit_to_secretary_menu\<close>\<close>

definition verify_secretary_menu :: "env \<Rightarrow> bool prog" where
  "verify_secretary_menu e =
     bnd (call (WaitForImage ''president'' menu_animation)
            (wait_for_image e ''president'' menu_animation))
       (\<lambda>found. ret (found \<noteq> None))"

text \<open>
  The \<open>for _ in range(max_attempts)\<close> loop, by the number of attempts left. Falling out
  of the loop returns false.
\<close>

primrec exit_attempts :: "nat \<Rightarrow> env \<Rightarrow> bool prog" where
  "exit_attempts 0 e = ret False"
| "exit_attempts (Suc n) e =
     bnd (verify_secretary_menu e) (\<lambda>anchored.
       if anchored then ret True
       else bnd (call PressBack (press_back e)) (\<lambda>_.
            bnd (call (HumanDelay menu_animation 1) (human_delay e menu_animation 1)) (\<lambda>_.
            exit_attempts n e)))"

definition max_attempts :: nat where
  "max_attempts = 10"

text \<open>The \<open>try\<close> around the loop turns every exception into the result false.\<close>

definition exit_to_secretary_menu :: "env \<Rightarrow> state \<Rightarrow> bool \<times> state" where
  "exit_to_secretary_menu e s =
     (case exit_attempts max_attempts e s of
        (Inl ex, s') \<Rightarrow> (False, s')
      | (Inr b, s') \<Rightarrow> (b, s'))"


text \<open>A function of the routine that catches its own exceptions, as a step of a \<open>prog\<close>.\<close>

definition lift :: "(state \<Rightarrow> 'a \<times> state) \<Rightarrow> 'a prog" where
  "lift f s = (case f s of (a, s') \<Rightarrow> (Inr a, s'))"

subsection \<open>\<open>find_accept_buttons\<close> and \<open>find_reject_buttons\<close>\<close>

text \<open>
  The two functions differ in the name of the template only. They sort the matches with
  \<open>sorted(matches, key=lambda x: (x[1], x[0]))\<close>: ascending in y, then in x. An exception
  of the matcher gives the empty list.
\<close>

definition find_buttons :: "string \<Rightarrow> env \<Rightarrow> state \<Rightarrow> point list \<times> state" where
  "find_buttons template e s =
     (case call (FindAllTemplates template) (find_all_templates e template) s of
        (Inl ex, s') \<Rightarrow> ([], s')
      | (Inr matches, s') \<Rightarrow>
          (if matches = [] then [] else sort_key (\<lambda>x. (snd x, fst x)) matches, s'))"

definition find_accept_buttons :: "env \<Rightarrow> state \<Rightarrow> point list \<times> state" where
  "find_accept_buttons = find_buttons ''accept''"

definition find_reject_buttons :: "env \<Rightarrow> state \<Rightarrow> point list \<times> state" where
  "find_reject_buttons = find_buttons ''reject''"

subsection \<open>The admission loop of \<open>process_secretary_position\<close>\<close>

text \<open>
  How one pass through the body of \<open>while processed < 5\<close> ends: at a \<open>break\<close>, at a
  \<open>continue\<close> (the counter is not advanced), or at the end of the body (after
  \<open>processed += 1\<close>). The local \<open>accepted\<close> is written and never read; it is left out.
\<close>

datatype flow = Break | Continue | Next

text \<open>Lines 241 to 267: the reject control, then the confirm control.\<close>

definition reject_candidate :: "env \<Rightarrow> string \<Rightarrow> point \<Rightarrow> flow prog" where
  "reject_candidate e name topmost_accept =
     bnd (lift (find_reject_buttons e)) (\<lambda>reject_buttons.
       case reject_buttons of
         reject_button # _ \<Rightarrow>
           if \<bar>snd reject_button - snd topmost_accept\<bar> \<le> 10 then
             bnd (call (HumanizedTap (fst reject_button) (snd reject_button))
                    (humanized_tap e (fst reject_button) (snd reject_button))) (\<lambda>_.
             bnd (call (FindAndTapTemplate ''confirm'' None)
                    (find_and_tap_template e ''confirm'' None)) (\<lambda>confirmed.
               if \<not> confirmed then ret Continue else ret Next))
           else ret Next
       | [] \<Rightarrow>
           bnd (call (FindAndTapTemplate ''confirm'' None)
                  (find_and_tap_template e ''confirm'' None)) (\<lambda>confirmed.
             if confirmed then bnd (touch_last_approve e name) (\<lambda>_. ret Next)
             else ret Continue))"

text \<open>\<open>if self.manual_deny: play_beep(); input('Press Enter to continue...')\<close>\<close>

definition manual_pause :: "env \<Rightarrow> unit prog" where
  "manual_pause e s =
     (if manual_deny s then bnd (call PlayBeep (play_beep e)) (\<lambda>_. call Input (input e)) s
      else ret () s)"

text \<open>Lines 208 to 271: the decision on the topmost candidate.\<close>

definition handle_candidate :: "env \<Rightarrow> string list \<Rightarrow> string \<Rightarrow> point \<Rightarrow> image \<Rightarrow> flow prog" where
  "handle_candidate e alliances name topmost_accept current_screenshot =
     (if length alliances > 0 then
        bnd (call (GetTextRegions topmost_accept current_screenshot)
               (get_text_regions e topmost_accept current_screenshot))
          (\<lambda>(alliance_region, name_region, screenshot).
        bnd (call (ExtractText alliance_region screenshot)
               (extract_text_from_region e alliance_region screenshot))
          (\<lambda>(alliance_text, original_text).
          if alliance_text \<in> set alliances then
            bnd (call (HumanizedTap (fst topmost_accept) (snd topmost_accept))
                   (humanized_tap e (fst topmost_accept) (snd topmost_accept))) (\<lambda>_.
            ret Next)
          else
            bnd (call (LogRejectedAlliance alliance_text original_text)
                   (log_rejected_alliance e alliance_text original_text)) (\<lambda>_.
            bnd (manual_pause e) (\<lambda>_.
            reject_candidate e name topmost_accept))))
      else
        bnd (call (HumanizedTap (fst topmost_accept) (snd topmost_accept))
               (humanized_tap e (fst topmost_accept) (snd topmost_accept))) (\<lambda>_.
        bnd (touch_last_approve e name) (\<lambda>_.
        ret Next)))"

text \<open>Lines 195 to 274: one pass through the loop body.\<close>

definition admission_iteration :: "env \<Rightarrow> string list \<Rightarrow> string \<Rightarrow> flow prog" where
  "admission_iteration e alliances name =
     bnd (call TakeScreenshot (take_screenshot e)) (\<lambda>shot.
       if \<not> shot then ret Break
       else bnd (call Imread (imread e)) (\<lambda>current_screenshot.
         case current_screenshot of
           None \<Rightarrow> ret Break
         | Some img \<Rightarrow>
             bnd (lift (find_accept_buttons e)) (\<lambda>accept_locations.
               case accept_locations of
                 [] \<Rightarrow> ret Break
               | topmost_accept # _ \<Rightarrow>
                   bnd (handle_candidate e alliances name topmost_accept img) (\<lambda>fl.
                     case fl of
                       Next \<Rightarrow>
                         bnd (call (HumanDelay settle_time 1) (human_delay e settle_time 1))
                           (\<lambda>_. ret Next)
                     | _ \<Rightarrow> ret fl))))"

text \<open>
  \<open>while processed < 5\<close>. A \<open>continue\<close> leaves \<open>processed\<close> as it is, so the loop has no
  bound of its own: the first argument is fuel, one unit per test of the loop condition,
  and \<open>None\<close> is "has not returned". The result is the final value of \<open>processed\<close>.
\<close>

primrec admission_loop ::
  "nat \<Rightarrow> env \<Rightarrow> string list \<Rightarrow> string \<Rightarrow> nat \<Rightarrow> state \<Rightarrow> ((exn + nat) \<times> state) option" where
  "admission_loop 0 e alliances name processed s = None"
| "admission_loop (Suc fuel) e alliances name processed s =
     (if processed < 5 then
        (case admission_iteration e alliances name s of
           (Inl ex, s') \<Rightarrow> Some (Inl ex, s')
         | (Inr Break, s') \<Rightarrow> Some (Inr processed, s')
         | (Inr Continue, s') \<Rightarrow> admission_loop fuel e alliances name processed s'
         | (Inr Next, s') \<Rightarrow> admission_loop fuel e alliances name (processed + 1) s')
      else Some (Inr processed, s))"

subsection \<open>\<open>process_secretary_position\<close>\<close>

text \<open>
  Lines 155 to 182, up to the tap on the list button. \<open>Some b\<close> is \<open>return b\<close>; \<open>None\<close>
  goes on to the applicants.
\<close>

definition open_applicant_list :: "env \<Rightarrow> string \<Rightarrow> bool option prog" where
  "open_applicant_list e name =
     bnd (call (FindAndTapTemplate name None) (find_and_tap_template e name None)) (\<lambda>found.
       if \<not> found then ret (Some True)
       else bnd (call (HumanDelay tap_delay 1) (human_delay e tap_delay 1)) (\<lambda>_.
            bnd (call (FindTemplate ''full_list'') (find_template e ''full_list'')) (\<lambda>full_list.
              if full_list \<noteq> None then
                bnd (lift (exit_to_secretary_menu e)) (\<lambda>ok. ret (Some ok))
              else
                bnd (call (FindAndTapTemplate ''list'' (Some list_timeout))
                       (find_and_tap_template e ''list'' (Some list_timeout))) (\<lambda>listed.
                  if \<not> listed then ret (Some False) else ret None))))"

text \<open>Lines 186 to 189: with more than five accept controls, scroll to the top first.\<close>

definition scroll_to_top :: "env \<Rightarrow> point list \<Rightarrow> unit prog" where
  "scroll_to_top e accept_locations =
     (if length accept_locations > 5 then
        bnd (call (HandleSwipes ''up'') (handle_swipes e ''up'')) (\<lambda>_.
        call (HumanDelay settle_time 2) (human_delay e settle_time 2))
      else ret ())"

text \<open>The body of the \<open>try\<close>, lines 154 to 281.\<close>

definition process_secretary_position_try ::
  "nat \<Rightarrow> env \<Rightarrow> string list \<Rightarrow> string \<Rightarrow> state \<Rightarrow> ((exn + bool) \<times> state) option" where
  "process_secretary_position_try fuel e alliances name s =
     (case open_applicant_list e name s of
        (Inl ex, s1) \<Rightarrow> Some (Inl ex, s1)
      | (Inr (Some b), s1) \<Rightarrow> Some (Inr b, s1)
      | (Inr None, s1) \<Rightarrow>
          (case find_accept_buttons e s1 of (accept_locations, s2) \<Rightarrow>
            (case
               (if accept_locations \<noteq> [] then
                  (case scroll_to_top e accept_locations s2 of
                     (Inl ex, s3) \<Rightarrow> Some (Inl ex, s3)
                   | (Inr _, s3) \<Rightarrow> admission_loop fuel e alliances name 0 s3)
                else Some (Inr 0, s2)) of
               None \<Rightarrow> None
             | Some (Inl ex, s4) \<Rightarrow> Some (Inl ex, s4)
             | Some (Inr _, s4) \<Rightarrow>
                 (case exit_to_secretary_menu e s4 of (ok, s5) \<Rightarrow> Some (Inr ok, s5)))))"

text \<open>The \<open>except Exception\<close> handler, lines 283 to 288.\<close>

definition process_secretary_position ::
  "nat \<Rightarrow> env \<Rightarrow> string list \<Rightarrow> string \<Rightarrow> state \<Rightarrow> (bool \<times> state) option" where
  "process_secretary_position fuel e alliances name s =
     (case process_secretary_position_try fuel e alliances name s of
        None \<Rightarrow> None
      | Some (Inr b, s') \<Rightarrow> Some (b, s')
      | Some (Inl ex, s') \<Rightarrow> Some (exit_to_secretary_menu e s'))"


subsection \<open>\<open>find_positions_with_applicants\<close>\<close>

text \<open>
  Lines 350 to 357: the first match of every position type that has one. The dictionary
  \<open>all_positions\<close> keeps insertion order, as \<open>AList.update\<close> does.
\<close>

primrec locate_positions ::
  "env \<Rightarrow> string list \<Rightarrow> (string \<times> point) list \<Rightarrow> (string \<times> point) list prog" where
  "locate_positions e [] all_positions = ret all_positions"
| "locate_positions e (position_type # rest) all_positions =
     bnd (call (FindAllTemplates position_type) (find_all_templates e position_type))
       (\<lambda>positions.
         locate_positions e rest
           (case positions of
              [] \<Rightarrow> all_positions
            | first # _ \<Rightarrow> AList.update position_type first all_positions))"

text \<open>Lines 379 to 386: the loop over the applicant icons, left at the first one near.\<close>

primrec applicant_nearby :: "int \<times> int \<Rightarrow> point \<Rightarrow> point list \<Rightarrow> bool" where
  "applicant_nearby offset pos_loc [] = False"
| "applicant_nearby offset pos_loc (app # rest) =
     (if \<bar>fst app - fst pos_loc\<bar> \<le> fst offset \<and> \<bar>snd app - snd pos_loc\<bar> \<le> snd offset
      then True
      else applicant_nearby offset pos_loc rest)"

text \<open>Lines 375 to 386: the loop over \<open>all_positions.items()\<close>.\<close>

primrec match_applicants ::
  "int \<times> int \<Rightarrow> point list \<Rightarrow> (string \<times> point) list \<Rightarrow> string list \<Rightarrow> string list" where
  "match_applicants offset applicant_locations [] positions_to_process = positions_to_process"
| "match_applicants offset applicant_locations (item # rest) positions_to_process =
     match_applicants offset applicant_locations rest
       (if applicant_nearby offset (snd item) applicant_locations
        then positions_to_process @ [fst item]
        else positions_to_process)"

text \<open>\<open>CONFIG.get("applicant_offset", {"x": 150, "y": 50})\<close>\<close>

definition applicant_offset :: "(int \<times> int) option \<Rightarrow> int \<times> int" where
  "applicant_offset configured = (case configured of None \<Rightarrow> (150, 50) | Some offset \<Rightarrow> offset)"

definition find_positions_with_applicants ::
  "env \<Rightarrow> (int \<times> int) option \<Rightarrow> state \<Rightarrow> string list \<times> state" where
  "find_positions_with_applicants e configured s =
     (case
        bnd (locate_positions e (secretary_types @ additionalTypes) []) (\<lambda>all_positions.
        bnd (call (FindAllTemplates ''has_applicant'') (find_all_templates e ''has_applicant''))
          (\<lambda>applicant_locations.
            if applicant_locations = [] then ret []
            else ret (match_applicants (applicant_offset configured) applicant_locations
                        all_positions []))) s of
        (Inl ex, s') \<Rightarrow> ([], s')
      | (Inr positions_to_process, s') \<Rightarrow> (positions_to_process, s'))"

subsection \<open>\<open>find_positions_to_remove\<close>\<close>

text \<open>
  Times are microseconds. \<open>datetime.timedelta(seconds=n)\<close> raises \<open>OverflowError\<close> when the
  number of days is beyond 999999999 in magnitude.
\<close>

definition timedelta_seconds :: "int \<Rightarrow> exn + int" where
  "timedelta_seconds n =
     (if \<bar>n div 86400\<bar> \<le> 999999999 then Inr (n * 1000000) else Inl OverflowError)"

text \<open>
  Lines 412 to 433, the body of the loop for one position type: true when the position
  is appended to \<open>positions_to_remove\<close>. \<open>not auto_remove_delay\<close> holds for a missing key
  and for the delay 0.
\<close>

definition remove_due :: "env \<Rightarrow> (string \<times> int) list \<Rightarrow> string \<Rightarrow> bool prog" where
  "remove_due e delays position_type s =
     (case map_of delays position_type of
        None \<Rightarrow> (Inr False, s)
      | Some auto_remove_delay \<Rightarrow>
          if auto_remove_delay = 0 then (Inr False, s)
          else
            (case timedelta_seconds auto_remove_delay of
               Inl ex \<Rightarrow> (Inl ex, s)
             | Inr config_td \<Rightarrow>
                 (case last_approve s position_type of
                    None \<Rightarrow> (Inl (KeyError position_type), s)
                  | Some approved \<Rightarrow>
                      if now e (trace s) - approved < config_td then (Inr False, s)
                      else
                        bnd (call (FindTemplate (''vacant-'' @ position_type))
                               (find_template e (''vacant-'' @ position_type))) (\<lambda>vacant.
                          if vacant \<noteq> None then
                            bnd (touch_last_approve e position_type) (\<lambda>_. ret False)
                          else
                            bnd (call (FindTemplate position_type)
                                   (find_template e position_type)) (\<lambda>position.
                              ret (position \<noteq> None))) s)))"

primrec remove_loop ::
  "env \<Rightarrow> (string \<times> int) list \<Rightarrow> string list \<Rightarrow> string list \<Rightarrow> string list prog" where
  "remove_loop e delays [] positions_to_remove = ret positions_to_remove"
| "remove_loop e delays (position_type # rest) positions_to_remove =
     bnd (remove_due e delays position_type) (\<lambda>due.
       remove_loop e delays rest
         (if due then positions_to_remove @ [position_type] else positions_to_remove))"

text \<open>
  An absent or empty \<open>auto_remove\<close> object and an absent or empty \<open>title_cfg\<close> both return
  the empty list before the loop; an exception in the loop returns the empty list too.
\<close>

definition find_positions_to_remove ::
  "env \<Rightarrow> auto_remove_config option \<Rightarrow> state \<Rightarrow> string list \<times> state" where
  "find_positions_to_remove e auto_remove s =
     (case auto_remove of
        None \<Rightarrow> ([], s)
      | Some cfg \<Rightarrow>
          (case title_cfg cfg of
             None \<Rightarrow> ([], s)
           | Some [] \<Rightarrow> ([], s)
           | Some delays \<Rightarrow>
               (case remove_loop e delays (secretary_types @ additionalTypes) [] s of
                  (Inl ex, s') \<Rightarrow> ([], s')
                | (Inr positions_to_remove, s') \<Rightarrow> (positions_to_remove, s'))))"

section \<open>Environments and states for concrete runs\<close>

text \<open>A device on which nothing is found, every tap succeeds and the clock counts calls.\<close>

definition quiet_env :: env where
  "quiet_env = \<lparr>
     find_template = (\<lambda>name h. Inr None),
     find_all_templates = (\<lambda>name h. Inr []),
     find_and_tap_template = (\<lambda>name t h. Inr True),
     wait_for_image = (\<lambda>name t h. Inr None),
     take_screenshot = (\<lambda>h. Inr True),
     imread = (\<lambda>h. Inr (Some 0)),
     get_text_regions = (\<lambda>p img h. Inr ((0, 0, 0, 0), (0, 0, 0, 0), img)),
     extract_text_from_region = (\<lambda>r img h. Inr ([], [])),
     humanized_tap = (\<lambda>x y h. Inr ()),
     press_back = (\<lambda>h. Inr ()),
     human_delay = (\<lambda>t k h. Inr ()),
     handle_swipes = (\<lambda>d h. Inr ()),
     log_rejected_alliance = (\<lambda>a b h. Inr ()),
     play_beep = (\<lambda>h. Inr ()),
     input = (\<lambda>h. Inr ()),
     now = (\<lambda>h. 1000 + int (length h)) \<rparr>"

text \<open>
  \<open>__init__\<close> at the time \<open>t\<close>: one timer for each of the seven position types, nothing
  called yet, no manual confirmation.
\<close>

definition init_state :: "time \<Rightarrow> state" where
  "init_state t =
     \<lparr> trace = [],
       last_approve = map_of (map (\<lambda>position. (position, t)) (secretary_types @ additionalTypes)),
       manual_deny = False \<rparr>"

subsection \<open>Recovery attempts\<close>

text \<open>The three calls of an attempt that does not find the anchor.\<close>

definition attempt_events :: "event list" where
  "attempt_events =
     [WaitForImage ''president'' menu_animation, PressBack, HumanDelay menu_animation 1]"

text \<open>The trace after \<open>k\<close> such attempts.\<close>

primrec after_attempts :: "nat \<Rightarrow> event list \<Rightarrow> event list" where
  "after_attempts 0 h = h"
| "after_attempts (Suc k) h = after_attempts k (h @ attempt_events)"

text \<open>
  At the trace \<open>h\<close> the anchor is not there, and the back navigation and the delay that
  follow return.
\<close>

definition attempt_fails :: "env \<Rightarrow> event list \<Rightarrow> bool" where
  "attempt_fails e h \<longleftrightarrow>
     wait_for_image e ''president'' menu_animation h = Inr None \<and>
     press_back e (h @ [WaitForImage ''president'' menu_animation]) = Inr () \<and>
     human_delay e menu_animation 1
       (h @ [WaitForImage ''president'' menu_animation, PressBack]) = Inr ()"

text \<open>At the trace \<open>h\<close> the anchor is there.\<close>

definition anchored :: "env \<Rightarrow> event list \<Rightarrow> bool" where
  "anchored e h =
     (case wait_for_image e ''president'' menu_animation h of
        Inr (Some p) \<Rightarrow> True
      | _ \<Rightarrow> False)"

text \<open>A device whose anchor shows once \<open>k\<close> back navigations have been made.\<close>

definition late_anchor_env :: "nat \<Rightarrow> env" where
  "late_anchor_env k = quiet_env \<lparr> wait_for_image :=
     (\<lambda>name t h. if k \<le> count_list h PressBack then Inr (Some (0, 0)) else Inr None) \<rparr>"


subsection \<open>Devices for the admission loop\<close>

text \<open>
  One candidate of the alliance XYZ at (100, 200), no reject control, and a confirm control
  that is never found.
\<close>

definition stuck_env :: env where
  "stuck_env = quiet_env \<lparr>
     find_all_templates := (\<lambda>name h. if name = ''accept'' then Inr [(100, 200)] else Inr []),
     find_and_tap_template := (\<lambda>name t h. Inr (name \<noteq> ''confirm'')),
     extract_text_from_region := (\<lambda>r img h. Inr (''XYZ'', ''xyz'')) \<rparr>"

text \<open>A list of candidates that never gets shorter: an accept control is always at (100, 200).\<close>

definition crowded_env :: env where
  "crowded_env = quiet_env \<lparr>
     find_all_templates := (\<lambda>name h. if name = ''accept'' then Inr [(100, 200)] else Inr []) \<rparr>"

text \<open>
  The position science has one applicant, of the alliance ABC, at (100, 200); the accept
  control is gone once it has been tapped, and the anchor is found at once.
\<close>

definition abc_env :: env where
  "abc_env = quiet_env \<lparr>
     find_all_templates :=
       (\<lambda>name h. if name = ''accept'' \<and> HumanizedTap 100 200 \<notin> set h then Inr [(100, 200)]
                  else Inr []),
     wait_for_image := (\<lambda>name t h. Inr (Some (0, 0))),
     extract_text_from_region := (\<lambda>r img h. Inr (''ABC'', ''ABC'')) \<rparr>"

text \<open>
  A candidate of the alliance XYZ at (100, 200) whose only reject control is 11 px lower.
\<close>

definition misaligned_env :: env where
  "misaligned_env = quiet_env \<lparr>
     find_all_templates :=
       (\<lambda>name h. if name = ''accept'' then Inr [(100, 200)]
                  else if name = ''reject'' then Inr [(300, 211)] else Inr []),
     extract_text_from_region := (\<lambda>r img h. Inr (''XYZ'', ''xyz'')) \<rparr>"

text \<open>Two reject controls, reported bottom row first.\<close>

definition two_rows_env :: env where
  "two_rows_env = quiet_env \<lparr>
     find_all_templates :=
       (\<lambda>name h. if name = ''reject'' then Inr [(300, 420), (300, 205)] else Inr []) \<rparr>"

subsection \<open>Observing a run\<close>

text \<open>The calls made between the state \<open>s\<close> and the later state \<open>s'\<close>.\<close>

definition new_events :: "state \<Rightarrow> state \<Rightarrow> event list" where
  "new_events s s' = drop (length (trace s)) (trace s')"

text \<open>
  A candidate at (100, 200) whose alliance reads abc, in lower case, and no reject
  control.
\<close>

definition lowercase_env :: env where
  "lowercase_env = quiet_env \<lparr>
     find_all_templates := (\<lambda>name h. if name = ''accept'' then Inr [(100, 200)] else Inr []),
     extract_text_from_region := (\<lambda>r img h. Inr (''abc'', ''aBc'')) \<rparr>"

subsection \<open>Scanning the positions\<close>

text \<open>
  What the matcher answers when \<open>find_positions_with_applicants\<close> asks for the position
  types in turn, starting at the trace \<open>h\<close>: the list \<open>icons\<close> of its answers, none of
  them an exception.
\<close>

primrec responds :: "env \<Rightarrow> event list \<Rightarrow> string list \<Rightarrow> point list list \<Rightarrow> bool" where
  "responds e h [] icons = (icons = [])"
| "responds e h (position_type # rest) icons =
     (case icons of
        [] \<Rightarrow> False
      | found # others \<Rightarrow>
          find_all_templates e position_type h = Inr found \<and>
          responds e (h @ [FindAllTemplates position_type]) rest others)"

text \<open>The position types whose icon was found, each with its first match.\<close>

definition first_matches :: "string list \<Rightarrow> point list list \<Rightarrow> (string \<times> point) list" where
  "first_matches types icons =
     map (\<lambda>(t, found). (t, hd found)) (filter (\<lambda>(t, found). found \<noteq> []) (zip types icons))"

text \<open>The test of line 383 on one applicant icon.\<close>

definition near :: "int \<times> int \<Rightarrow> point \<Rightarrow> point \<Rightarrow> bool" where
  "near offset pos_loc app \<longleftrightarrow>
     \<bar>fst app - fst pos_loc\<bar> \<le> fst offset \<and> \<bar>snd app - snd pos_loc\<bar> \<le> snd offset"

text \<open>
  Science at (500, 800) and military at (200, 300); applicant icons at (40, 40) and at
  (650, 850), which is 150 px right of and 50 px below science.
\<close>

definition lobby_env :: env where
  "lobby_env = quiet_env \<lparr>
     find_all_templates :=
       (\<lambda>name h. if name = ''science'' then Inr [(500, 800), (900, 900)]
                  else if name = ''military'' then Inr [(200, 300)]
                  else if name = ''has_applicant'' then Inr [(40, 40), (650, 850)]
                  else Inr []) \<rparr>"

subsection \<open>Evictions\<close>

text \<open>
  Two minutes after the timers were set: the icon of military is found, interior is
  vacant, and nothing else is found.
\<close>

definition evict_env :: env where
  "evict_env = quiet_env \<lparr>
     find_template :=
       (\<lambda>name h. if name = ''military'' \<or> name = ''vacant-interior'' then Inr (Some (200, 300))
                  else Inr None),
     now := (\<lambda>h. 120000000 + int (length h)) \<rparr>"

text \<open>A \<open>title_cfg\<close> with the delay 0 for science.\<close>

definition evict_delays :: "(string \<times> int) list" where
  "evict_delays = [(''science'', 0), (''military'', 60), (''interior'', 60), (''strategy'', 300)]"


text \<open>What the loop makes of a delay: a missing key and the delay 0 are the same.\<close>

definition effective_delay :: "(string \<times> int) list \<Rightarrow> string \<Rightarrow> int option" where
  "effective_delay delays p =
     (case map_of delays p of None \<Rightarrow> None | Some D \<Rightarrow> if D = 0 then None else Some D)"

subsection \<open>Devices that raise\<close>

text \<open>The device of \<open>abc_env\<close>, but the text extraction raises.\<close>

definition faulty_env :: env where
  "faulty_env = abc_env \<lparr>
     extract_text_from_region := (\<lambda>r img h. Inl (PyException ''text extraction failed'')) \<rparr>"

text \<open>The same, and the anchor is never found.\<close>

definition lost_env :: env where
  "lost_env = faulty_env \<lparr> wait_for_image := (\<lambda>name t h. Inr None) \<rparr>"

text \<open>The device of \<open>crowded_env\<close> with a clock that reads 5 at every call.\<close>

definition backward_env :: env where
  "backward_env = crowded_env \<lparr> now := (\<lambda>h. 5) \<rparr>"

subsection \<open>The scan for evictions as a whole\<close>

text \<open>
  The state in which \<open>find_positions_to_remove\<close> comes to the position \<open>p\<close>: the one the
  loop has reached after the position types listed before \<open>p\<close>.
\<close>

definition turn_state :: "env \<Rightarrow> (string \<times> int) list \<Rightarrow> string \<Rightarrow> state \<Rightarrow> state" where
  "turn_state e delays p s =
     snd (remove_loop e delays
            (takeWhile (\<lambda>q. q \<noteq> p) (secretary_types @ additionalTypes)) [] s)"

text \<open>
  A \<open>title_cfg\<close> whose delay for strategy is a thousand million days, one day more than
  \<open>timedelta\<close> accepts.
\<close>

definition overflow_delays :: "(string \<times> int) list" where
  "overflow_delays = [(''strategy'', 86400000000000), (''military'', 60)]"

subsection \<open>Calls that raise\<close>

text \<open>The exception of an answer, if it is one.\<close>

definition err :: "exn + 'a \<Rightarrow> exn option" where
  "err answer = (case answer of Inl ex \<Rightarrow> Some ex | Inr _ \<Rightarrow> None)"

text \<open>The exception that the call recorded as the event raises at the trace \<open>h\<close>, if any.\<close>

fun raised :: "env \<Rightarrow> event \<Rightarrow> event list \<Rightarrow> exn option" where
  "raised e (FindTemplate name) h = err (find_template e name h)"
| "raised e (FindAllTemplates name) h = err (find_all_templates e name h)"
| "raised e (FindAndTapTemplate name t) h = err (find_and_tap_template e name t h)"
| "raised e (WaitForImage name t) h = err (wait_for_image e name t h)"
| "raised e TakeScreenshot h = err (take_screenshot e h)"
| "raised e Imread h = err (imread e h)"
| "raised e (GetTextRegions p img) h = err (get_text_regions e p img h)"
| "raised e (ExtractText r img) h = err (extract_text_from_region e r img h)"
| "raised e (HumanizedTap x y) h = err (humanized_tap e x y h)"
| "raised e PressBack h = err (press_back e h)"
| "raised e (HumanDelay t k) h = err (human_delay e t k h)"
| "raised e (HandleSwipes d) h = err (handle_swipes e d h)"
| "raised e (LogRejectedAlliance a b) h = err (log_rejected_alliance e a b h)"
| "raised e PlayBeep h = err (play_beep e h)"
| "raised e Input h = err (input e h)"

text \<open>
  The calls whose exceptions are caught where they are made, by the \<open>try\<close> of
  \<open>find_accept_buttons\<close> and \<open>find_reject_buttons\<close> (the template search) and by the
  \<open>try\<close> of \<open>exit_to_secretary_menu\<close> (the check of the anchor, the back navigation and
  the delay of the menu animation, which no other function of the routine calls).
\<close>

fun caught_locally :: "event \<Rightarrow> bool" where
  "caught_locally (FindAllTemplates name) = True"
| "caught_locally (WaitForImage name t) = True"
| "caught_locally PressBack = True"
| "caught_locally (HumanDelay t k) = (t = menu_animation)"
| "caught_locally ev = False"

text \<open>
  From the trace \<open>h\<close> on, each of the calls either returned or had its exception caught
  where it was made.
\<close>

primrec quiet :: "env \<Rightarrow> event list \<Rightarrow> event list \<Rightarrow> bool" where
  "quiet e h [] = True"
| "quiet e h (ev # evs) =
     ((caught_locally ev \<or> raised e ev h = None) \<and> quiet e (h @ [ev]) evs)"

text \<open>
  A run from \<open>s\<close> with the result \<open>r\<close> only added calls to the trace; if it returned, all
  of them were quiet; if it raised, its last call is one that raised this exception and
  is not caught where it is made, and all calls before were quiet.
\<close>

definition stops_at_raise :: "env \<Rightarrow> state \<Rightarrow> (exn + 'a) \<times> state \<Rightarrow> bool" where
  "stops_at_raise e s r =
     (trace (snd r) = trace s @ new_events s (snd r) \<and>
      (case fst r of
         Inr _ \<Rightarrow> quiet e (trace s) (new_events s (snd r))
       | Inl ex \<Rightarrow>
           new_events s (snd r) \<noteq> [] \<and>
           quiet e (trace s) (butlast (new_events s (snd r))) \<and>
           \<not> caught_locally (last (new_events s (snd r))) \<and>
           raised e (last (new_events s (snd r))) (trace s @ butlast (new_events s (snd r)))
             = Some ex))"

text \<open>
  A candidate of the alliance XYZ at (100, 200) on a device whose search for the reject
  template raises: first with a confirm control that is found, then with one that is never
  found while the anchor is always there.
\<close>

definition swallow_confirm_env :: env where
  "swallow_confirm_env = quiet_env \<lparr>
     find_all_templates :=
       (\<lambda>name h. if name = ''accept'' then Inr [(100, 200)]
                  else Inl (PyException ''template matching failed'')) \<rparr>"

definition swallow_env :: env where
  "swallow_env = stuck_env \<lparr>
     find_all_templates :=
       (\<lambda>name h. if name = ''accept'' then Inr [(100, 200)]
                  else Inl (PyException ''template matching failed'')),
     wait_for_image := (\<lambda>name t h. Inr (Some (0, 0))) \<rparr>"

section \<open>Recovery\<close>

lemma exit_attempts_anchored:
  "anchored e (trace s) \<Longrightarrow>
   exit_attempts (Suc n) e s =
     (Inr True, s\<lparr>trace := trace s @ [WaitForImage ''president'' menu_animation]\<rparr>)"
  by (auto simp: anchored_def verify_secretary_menu_def bnd_def call_def ret_def
      split: sum.splits option.splits)

lemma exit_attempts_fails:
  "attempt_fails e (trace s) \<Longrightarrow>
   exit_attempts (Suc n) e s = exit_attempts n e (s\<lparr>trace := trace s @ attempt_events\<rparr>)"
  by (simp add: attempt_fails_def verify_secretary_menu_def bnd_def call_def ret_def
      attempt_events_def)

text \<open>
  After \<open>k\<close> failed attempts out of \<open>n\<close>, the loop is where it would be with \<open>n - k\<close>
  attempts left, and it has returned false when none is left.
\<close>

lemma exit_attempts_run:
  "\<forall>i<k. attempt_fails e (after_attempts i (trace s)) \<Longrightarrow> k \<le> n \<Longrightarrow>
   exit_attempts n e s =
     (if k = n then (Inr False, s\<lparr>trace := after_attempts n (trace s)\<rparr>)
      else exit_attempts (n - k) e (s\<lparr>trace := after_attempts k (trace s)\<rparr>))"
proof (induction k arbitrary: n s)
  case 0
  then show ?case by (cases n) (simp_all add: ret_def)
next
  case (Suc k)
  from Suc.prems obtain m where n: "n = Suc m" and km: "k \<le> m"
    by (cases n) auto
  let ?s1 = "s\<lparr>trace := trace s @ attempt_events\<rparr>"
  from Suc.prems(1) have "attempt_fails e (after_attempts 0 (trace s))"
    by blast
  then have f0: "attempt_fails e (trace s)"
    by simp
  have rest: "\<forall>i<k. attempt_fails e (after_attempts i (trace ?s1))"
  proof (intro allI impI)
    fix i assume "i < k"
    then have "Suc i < Suc k"
      by simp
    with Suc.prems(1) have "attempt_fails e (after_attempts (Suc i) (trace s))"
      by blast
    then show "attempt_fails e (after_attempts i (trace ?s1))"
      by simp
  qed
  have "exit_attempts n e s = exit_attempts m e ?s1"
    unfolding n using f0 by (rule exit_attempts_fails)
  also have "\<dots> =
      (if k = m then (Inr False, ?s1\<lparr>trace := after_attempts m (trace ?s1)\<rparr>)
       else exit_attempts (m - k) e (?s1\<lparr>trace := after_attempts k (trace ?s1)\<rparr>))"
    using rest km by (rule Suc.IH)
  finally show ?case by (simp add: n)
qed

lemma count_back_after_attempts:
  "count_list (after_attempts k h) PressBack = count_list h PressBack + k"
  by (induction k arbitrary: h) (simp_all add: attempt_events_def)

lemma count_check_after_attempts:
  "count_list (after_attempts k h) (WaitForImage ''president'' menu_animation) =
   count_list h (WaitForImage ''president'' menu_animation) + k"
  by (induction k arbitrary: h) (simp_all add: attempt_events_def)

lemma exit_to_secretary_menu_found:
  assumes "\<forall>i<k. attempt_fails e (after_attempts i (trace s))"
    and "k < max_attempts" and "anchored e (after_attempts k (trace s))"
  shows "exit_to_secretary_menu e s =
     (True, s\<lparr>trace := after_attempts k (trace s) @ [WaitForImage ''president'' menu_animation]\<rparr>)"
proof -
  from assms(2) obtain m where m: "max_attempts - k = Suc m"
    by (cases "max_attempts - k") auto
  have "exit_attempts max_attempts e s =
      exit_attempts (Suc m) e (s\<lparr>trace := after_attempts k (trace s)\<rparr>)"
    using exit_attempts_run [OF assms(1), of max_attempts] assms(2) m by simp
  also have "\<dots> =
      (Inr True, s\<lparr>trace := after_attempts k (trace s) @ [WaitForImage ''president'' menu_animation]\<rparr>)"
    using exit_attempts_anchored [of e "s\<lparr>trace := after_attempts k (trace s)\<rparr>" m] assms(3)
    by simp
  finally show ?thesis
    by (simp add: exit_to_secretary_menu_def)
qed

lemma exit_to_secretary_menu_exhausted:
  assumes "\<forall>i<max_attempts. attempt_fails e (after_attempts i (trace s))"
  shows "exit_to_secretary_menu e s = (False, s\<lparr>trace := after_attempts max_attempts (trace s)\<rparr>)"
  using exit_attempts_run [OF assms, of max_attempts]
  by (simp add: exit_to_secretary_menu_def)

text \<open>
  Claim C2, as the code has it. Let the first \<open>k\<close> checks of the anchor fail. If \<open>k\<close> is
  below 10 and the anchor is there after these \<open>k\<close> back navigations,
  \<open>exit_to_secretary_menu\<close> returns true, having made exactly \<open>k\<close> back navigations (none
  when \<open>k\<close> is 0) and one more check. If \<open>k\<close> is 10, it returns false after exactly 10
  checks and 10 back navigations: the tenth back navigation is not followed by a check.
\<close>

theorem exit_to_secretary_menu_attempts:
  assumes "\<forall>i<k. attempt_fails e (after_attempts i (trace s))"
  shows "(k < 10 \<and> anchored e (after_attempts k (trace s)) \<longrightarrow>
            fst (exit_to_secretary_menu e s) = True \<and>
            trace (snd (exit_to_secretary_menu e s)) =
              after_attempts k (trace s) @ [WaitForImage ''president'' menu_animation] \<and>
            count_list (trace (snd (exit_to_secretary_menu e s))) PressBack =
              count_list (trace s) PressBack + k) \<and>
         (k = 10 \<longrightarrow>
            fst (exit_to_secretary_menu e s) = False \<and>
            trace (snd (exit_to_secretary_menu e s)) = after_attempts 10 (trace s) \<and>
            count_list (trace (snd (exit_to_secretary_menu e s))) PressBack =
              count_list (trace s) PressBack + 10 \<and>
            count_list (trace (snd (exit_to_secretary_menu e s)))
                (WaitForImage ''president'' menu_animation) =
              count_list (trace s) (WaitForImage ''president'' menu_animation) + 10)"
proof (intro conjI impI)
  assume a: "k < 10 \<and> anchored e (after_attempts k (trace s))"
  then have r: "exit_to_secretary_menu e s =
     (True, s\<lparr>trace := after_attempts k (trace s) @ [WaitForImage ''president'' menu_animation]\<rparr>)"
    using exit_to_secretary_menu_found [OF assms] by (simp add: max_attempts_def)
  show "fst (exit_to_secretary_menu e s) = True"
    by (simp add: r)
  show "trace (snd (exit_to_secretary_menu e s)) =
      after_attempts k (trace s) @ [WaitForImage ''president'' menu_animation]"
    by (simp add: r)
  show "count_list (trace (snd (exit_to_secretary_menu e s))) PressBack =
      count_list (trace s) PressBack + k"
    by (simp add: r count_back_after_attempts)
next
  assume k: "k = 10"
  then have r: "exit_to_secretary_menu e s = (False, s\<lparr>trace := after_attempts 10 (trace s)\<rparr>)"
    using exit_to_secretary_menu_exhausted [of e s] assms by (simp add: max_attempts_def)
  show "fst (exit_to_secretary_menu e s) = False"
    by (simp add: r)
  show "trace (snd (exit_to_secretary_menu e s)) = after_attempts 10 (trace s)"
    by (simp add: r)
  show "count_list (trace (snd (exit_to_secretary_menu e s))) PressBack =
      count_list (trace s) PressBack + 10"
    by (simp add: r count_back_after_attempts)
  show "count_list (trace (snd (exit_to_secretary_menu e s)))
          (WaitForImage ''president'' menu_animation) =
        count_list (trace s) (WaitForImage ''president'' menu_animation) + 10"
    by (simp add: r count_check_after_attempts)
qed

lemmas env_evals =
  quiet_env_def late_anchor_env_def init_state_def secretary_types_def additionalTypes_def

lemmas prog_evals = bnd_def call_def ret_def lift_def

text \<open>
  The anchor shows after 3 back navigations: true, with 3 back navigations. The anchor
  never shows: false, with 10.
\<close>

theorem exit_to_secretary_menu_attempts_witness:
  "fst (exit_to_secretary_menu (late_anchor_env 3) (init_state 0)) = True \<and>
   count_list (trace (snd (exit_to_secretary_menu (late_anchor_env 3) (init_state 0)))) PressBack = 3 \<and>
   fst (exit_to_secretary_menu quiet_env (init_state 0)) = False \<and>
   count_list (trace (snd (exit_to_secretary_menu quiet_env (init_state 0)))) PressBack = 10"
proof -
  have f3: "\<forall>i<3. attempt_fails (late_anchor_env 3) (after_attempts i (trace (init_state 0)))"
    by (simp add: env_evals attempt_fails_def attempt_events_def numeral_3_eq_3 less_Suc_eq)
  have a3: "(3::nat) < 10 \<and> anchored (late_anchor_env 3) (after_attempts 3 (trace (init_state 0)))"
    by (simp add: env_evals anchored_def attempt_events_def numeral_3_eq_3)
  have f10: "\<forall>i<10. attempt_fails quiet_env (after_attempts i (trace (init_state 0)))"
    by (simp add: env_evals attempt_fails_def)
  have t0: "count_list (trace (init_state 0)) PressBack = 0"
    by (simp add: env_evals)
  show ?thesis
    using exit_to_secretary_menu_attempts [OF f3] a3
      exit_to_secretary_menu_attempts [OF f10] t0
    by (simp add: count_back_after_attempts)
qed

text \<open>
  Claim C2 as stated fails at \<open>k = 10\<close>: on a device whose anchor shows after exactly 10
  back navigations, all 10 checks fail, the anchor is there after the tenth back
  navigation, and \<open>exit_to_secretary_menu\<close> returns false.
\<close>

theorem exit_to_secretary_menu_tenth_counterexample:
  "list_all (\<lambda>i. attempt_fails (late_anchor_env 10) (after_attempts i (trace (init_state 0))))
     [0..<10] \<and>
   anchored (late_anchor_env 10) (after_attempts 10 (trace (init_state 0))) \<and>
   fst (exit_to_secretary_menu (late_anchor_env 10) (init_state 0)) = False \<and>
   count_list (trace (snd (exit_to_secretary_menu (late_anchor_env 10) (init_state 0)))) PressBack
     = 10"
  by (simp add: env_evals attempt_fails_def anchored_def exit_to_secretary_menu_def
      max_attempts_def numeral_eq_Suc attempt_events_def verify_secretary_menu_def
      prog_evals upt_rec)

section \<open>Bounds of the loops\<close>

lemma exit_attempts_checks:
  "count_list (trace (snd (exit_attempts n e s))) (WaitForImage ''president'' menu_animation)
     \<le> count_list (trace s) (WaitForImage ''president'' menu_animation) + n"
proof (induction n arbitrary: s)
  case 0
  show ?case by (simp add: ret_def)
next
  case (Suc n)
  let ?s1 = "s\<lparr>trace := trace s @ attempt_events\<rparr>"
  show ?case
  proof (cases "attempt_fails e (trace s)")
    case True
    have "count_list (trace (snd (exit_attempts n e ?s1))) (WaitForImage ''president'' menu_animation)
       \<le> count_list (trace ?s1) (WaitForImage ''president'' menu_animation) + n"
      by (rule Suc.IH)
    then show ?thesis
      unfolding exit_attempts_fails [OF True] by (simp add: attempt_events_def)
  next
    case False
    then show ?thesis
      by (auto simp: attempt_fails_def verify_secretary_menu_def prog_evals
          split: sum.splits option.splits unit.splits)
  qed
qed

lemma exit_attempts_backs:
  "count_list (trace (snd (exit_attempts n e s))) PressBack \<le> count_list (trace s) PressBack + n"
proof (induction n arbitrary: s)
  case 0
  show ?case by (simp add: ret_def)
next
  case (Suc n)
  let ?s1 = "s\<lparr>trace := trace s @ attempt_events\<rparr>"
  show ?case
  proof (cases "attempt_fails e (trace s)")
    case True
    have "count_list (trace (snd (exit_attempts n e ?s1))) PressBack
       \<le> count_list (trace ?s1) PressBack + n"
      by (rule Suc.IH)
    then show ?thesis
      unfolding exit_attempts_fails [OF True] by (simp add: attempt_events_def)
  next
    case False
    then show ?thesis
      by (auto simp: attempt_fails_def verify_secretary_menu_def prog_evals
          split: sum.splits option.splits unit.splits)
  qed
qed

lemma reject_candidate_no_continue:
  assumes "\<forall>h. find_and_tap_template e ''confirm'' None h \<noteq> Inr False"
  shows "reject_candidate e name a s \<noteq> (Inr Continue, s')"
  using assms
  by (auto simp: reject_candidate_def prog_evals touch_last_approve_def
      split: sum.splits list.splits prod.splits if_splits)

lemma handle_candidate_no_continue:
  assumes "\<forall>h. find_and_tap_template e ''confirm'' None h \<noteq> Inr False"
  shows "handle_candidate e wl name a img s \<noteq> (Inr Continue, s')"
  using reject_candidate_no_continue [OF assms]
  by (auto simp: handle_candidate_def bnd_def call_def ret_def touch_last_approve_def
      split: sum.splits prod.splits if_splits)

lemma admission_iteration_no_continue:
  assumes "\<forall>h. find_and_tap_template e ''confirm'' None h \<noteq> Inr False"
  shows "admission_iteration e wl name s \<noteq> (Inr Continue, s')"
  using handle_candidate_no_continue [OF assms]
  by (auto simp: admission_iteration_def prog_evals
      split: sum.splits prod.splits if_splits option.splits list.splits flow.splits)

lemma admission_loop_returns:
  assumes "\<forall>h. find_and_tap_template e ''confirm'' None h \<noteq> Inr False"
  shows "5 - processed = k \<Longrightarrow> processed \<le> 5 \<Longrightarrow>
         \<exists>r. admission_loop (Suc k) e wl name processed s = Some r"
proof (induction k arbitrary: processed s)
  case 0
  then show ?case by simp
next
  case (Suc k)
  then have p: "processed < 5" by simp
  obtain r s1 where it: "admission_iteration e wl name s = (r, s1)"
    by (cases "admission_iteration e wl name s")
  show ?case
  proof (cases r)
    case (Inl ex)
    with p it show ?thesis by simp
  next
    case (Inr fl)
    show ?thesis
    proof (cases fl)
      case Break
      with p it Inr show ?thesis by simp
    next
      case Continue
      with it Inr admission_iteration_no_continue [OF assms] show ?thesis by blast
    next
      case Next
      from Suc.prems have "5 - (processed + 1) = k" "processed + 1 \<le> 5" by simp_all
      then obtain r' where "admission_loop (Suc k) e wl name (processed + 1) s1 = Some r'"
        using Suc.IH by blast
      with p it Inr Next show ?thesis by simp
    qed
  qed
qed

lemma admission_loop_processed:
  "admission_loop fuel e wl name processed s = Some (Inr n, s') \<Longrightarrow> processed \<le> 5 \<Longrightarrow> n \<le> 5"
proof (induction fuel arbitrary: processed s)
  case 0
  then show ?case by simp
next
  case (Suc fuel)
  show ?case
  proof (cases "processed < 5")
    case False
    with Suc.prems show ?thesis by simp
  next
    case True
    obtain r s1 where it: "admission_iteration e wl name s = (r, s1)"
      by (cases "admission_iteration e wl name s")
    show ?thesis
    proof (cases r)
      case (Inl ex)
      with True it Suc.prems show ?thesis by simp
    next
      case (Inr fl)
      show ?thesis
      proof (cases fl)
        case Break
        with True it Inr Suc.prems show ?thesis by simp
      next
        case Continue
        with True it Inr Suc.prems
        have "admission_loop fuel e wl name processed s1 = Some (Inr n, s')" by simp
        then show ?thesis using Suc.prems(2) by (rule Suc.IH)
      next
        case Next
        with True it Inr Suc.prems
        have "admission_loop fuel e wl name (processed + 1) s1 = Some (Inr n, s')" by simp
        moreover from True have "processed + 1 \<le> 5" by simp
        ultimately show ?thesis by (rule Suc.IH)
      qed
    qed
  qed
qed

lemma stuck_iteration:
  "\<exists>s'. admission_iteration stuck_env [''ABC''] name s = (Inr Continue, s')"
  by (simp add: stuck_env_def env_evals admission_iteration_def handle_candidate_def
      reject_candidate_def manual_pause_def find_accept_buttons_def find_reject_buttons_def
      find_buttons_def prog_evals)

lemma stuck_loop: "processed < 5 \<Longrightarrow> admission_loop fuel stuck_env [''ABC''] name processed s = None"
proof (induction fuel arbitrary: s)
  case 0
  show ?case by simp
next
  case (Suc fuel)
  obtain s' where "admission_iteration stuck_env [''ABC''] name s = (Inr Continue, s')"
    using stuck_iteration by blast
  with Suc show ?case by simp
qed

lemma stuck_env_sel:
  "find_and_tap_template stuck_env = (\<lambda>name t h. Inr (name \<noteq> ''confirm''))"
  "find_template stuck_env = (\<lambda>name h. Inr None)"
  "find_all_templates stuck_env =
     (\<lambda>name h. if name = ''accept'' then Inr [(100, 200)] else Inr [])"
  "human_delay stuck_env = (\<lambda>t k h. Inr ())"
  by (simp_all add: stuck_env_def quiet_env_def)

text \<open>
  Claim C4 as stated fails for the admission loop. The candidate is not whitelisted, no
  reject control is found and the confirm control is never found: every pass ends at
  \<open>continue\<close>, the counter stays at 0, and \<open>process_secretary_position\<close> does not return,
  whatever the fuel.
\<close>

theorem admission_loop_unbounded_counterexample:
  "\<forall>fuel. process_secretary_position fuel stuck_env [''ABC''] ''science'' (init_state 0) = None"
  by (simp add: process_secretary_position_def process_secretary_position_try_def
      open_applicant_list_def scroll_to_top_def find_accept_buttons_def find_buttons_def
      stuck_loop prog_evals stuck_env_sel)


lemma trace_exit_to_secretary_menu:
  "trace (snd (exit_to_secretary_menu e s)) = trace (snd (exit_attempts 10 e s))"
  by (cases "exit_attempts 10 e s")
    (auto simp: exit_to_secretary_menu_def max_attempts_def split: sum.splits)

lemma exit_to_secretary_menu_checks:
  "count_list (trace (snd (exit_to_secretary_menu e s))) (WaitForImage ''president'' menu_animation)
     \<le> count_list (trace s) (WaitForImage ''president'' menu_animation) + 10"
  unfolding trace_exit_to_secretary_menu by (rule exit_attempts_checks)

lemma exit_to_secretary_menu_backs:
  "count_list (trace (snd (exit_to_secretary_menu e s))) PressBack
     \<le> count_list (trace s) PressBack + 10"
  unfolding trace_exit_to_secretary_menu by (rule exit_attempts_backs)

text \<open>
  Claim C4, as the code has it. For every device, \<open>exit_to_secretary_menu\<close> makes at most
  10 checks of the anchor and at most 10 back navigations. For every device and any fuel,
  the admission loop ends with a counter of at most 5. If no call of the confirm control
  returns false, every pass through the body ends at an exception, a \<open>break\<close> or a
  counted candidate, and the loop returns within 6 tests of its condition, that is
  within 5 passes.
\<close>

theorem loops_bounded:
  "count_list (trace (snd (exit_to_secretary_menu e s))) (WaitForImage ''president'' menu_animation)
     \<le> count_list (trace s) (WaitForImage ''president'' menu_animation) + 10 \<and>
   count_list (trace (snd (exit_to_secretary_menu e s))) PressBack
     \<le> count_list (trace s) PressBack + 10 \<and>
   (\<forall>n s'. admission_loop fuel e alliances name 0 s = Some (Inr n, s') \<longrightarrow> n \<le> 5) \<and>
   ((\<forall>h. find_and_tap_template e ''confirm'' None h \<noteq> Inr False) \<longrightarrow>
      (\<exists>r. admission_loop 6 e alliances name 0 s = Some r))"
proof (intro conjI allI impI)
  show "count_list (trace (snd (exit_to_secretary_menu e s)))
          (WaitForImage ''president'' menu_animation)
        \<le> count_list (trace s) (WaitForImage ''president'' menu_animation) + 10"
    by (rule exit_to_secretary_menu_checks)
  show "count_list (trace (snd (exit_to_secretary_menu e s))) PressBack
        \<le> count_list (trace s) PressBack + 10"
    by (rule exit_to_secretary_menu_backs)
next
  fix n s'
  assume "admission_loop fuel e alliances name 0 s = Some (Inr n, s')"
  then show "n \<le> 5"
    by (rule admission_loop_processed) simp
next
  assume "\<forall>h. find_and_tap_template e ''confirm'' None h \<noteq> Inr False"
  then have "\<exists>r. admission_loop (Suc 5) e alliances name 0 s = Some r"
    by (rule admission_loop_returns) simp_all
  then show "\<exists>r. admission_loop 6 e alliances name 0 s = Some r"
    by (simp add: eval_nat_numeral)
qed

text \<open>
  With no whitelist and a list that never gets shorter, the confirm control is never
  asked for: the loop returns, with 5 candidates counted.
\<close>

theorem loops_bounded_witness:
  "(\<exists>r. admission_loop 6 crowded_env [] ''science'' 0 (init_state 0) = Some r) \<and>
   map_option fst (admission_loop 6 crowded_env [] ''science'' 0 (init_state 0)) = Some (Inr 5)"
proof -
  have c: "\<forall>h. find_and_tap_template crowded_env ''confirm'' None h \<noteq> Inr False"
    by (simp add: crowded_env_def quiet_env_def)
  have "\<exists>r. admission_loop 6 crowded_env [] ''science'' 0 (init_state 0) = Some r"
    using loops_bounded [of crowded_env "init_state 0" 6 "[]" "''science''"] c by blast
  moreover have "map_option fst (admission_loop 6 crowded_env [] ''science'' 0 (init_state 0))
      = Some (Inr 5)"
    by (simp add: numeral_eq_Suc crowded_env_def env_evals admission_iteration_def
        handle_candidate_def find_accept_buttons_def find_buttons_def touch_last_approve_def
        prog_evals)
  ultimately show ?thesis by blast
qed

section \<open>The admission loop\<close>

lemmas routine_evals =
  process_secretary_position_def process_secretary_position_try_def open_applicant_list_def
  scroll_to_top_def admission_iteration_def handle_candidate_def reject_candidate_def
  manual_pause_def find_accept_buttons_def find_reject_buttons_def find_buttons_def
  touch_last_approve_def exit_to_secretary_menu_def max_attempts_def verify_secretary_menu_def


text \<open>
  Claim C1 at its end-to-end input: science has one applicant of the whitelisted alliance
  ABC. The accept control is tapped once, the loop ends at the \<open>break\<close> of its second
  pass and the routine returns true; but \<open>last_approve\<close> is the dictionary it was, with
  the timer of science still at 0 while the clock starts at 1000. The branch of the
  whitelisted candidate has no assignment to \<open>last_approve\<close>; the branch without a
  whitelist has one.
\<close>

theorem whitelisted_accept_keeps_timer:
  "process_secretary_position 2 abc_env [''ABC''] ''science'' (init_state 0) =
     Some (True,
       \<lparr> trace =
           [FindAndTapTemplate ''science'' None, HumanDelay tap_delay 1,
            FindTemplate ''full_list'', FindAndTapTemplate ''list'' (Some list_timeout),
            FindAllTemplates ''accept'',
            TakeScreenshot, Imread, FindAllTemplates ''accept'',
            GetTextRegions (100, 200) 0, ExtractText (0, 0, 0, 0) 0,
            HumanizedTap 100 200, HumanDelay settle_time 1,
            TakeScreenshot, Imread, FindAllTemplates ''accept'',
            WaitForImage ''president'' menu_animation],
         last_approve = last_approve (init_state 0),
         manual_deny = False \<rparr>) \<and>
   last_approve (init_state 0) ''science'' = Some 0 \<and>
   now abc_env [] = 1000"
  by (simp add: routine_evals prog_evals abc_env_def env_evals numeral_eq_Suc)


subsection \<open>The reject control\<close>

lemma find_buttons_state:
  "snd (find_buttons t e s) = s\<lparr>trace := trace s @ [FindAllTemplates t]\<rparr>"
  by (simp add: find_buttons_def call_def split: sum.splits)

lemma find_buttons_result:
  "fst (find_buttons t e s) =
     (case find_all_templates e t (trace s) of
        Inl ex \<Rightarrow> []
      | Inr matches \<Rightarrow> sort_key (\<lambda>x. (snd x, fst x)) matches)"
  by (simp add: find_buttons_def call_def split: sum.splits)

lemma sort_key_head_least:
  assumes "sort_key f xs = r # rest" and "q \<in> set xs"
  shows "f r \<le> f q"
proof -
  have "sorted (map f (r # rest))"
    using sorted_sort_key [of f xs] assms(1) by simp
  moreover have "q \<in> set (r # rest)"
    using assms set_sort [of f xs] by metis
  ultimately show ?thesis
    by auto
qed

lemma find_buttons_topmost:
  assumes "fst (find_buttons t e s) = r # rest"
  shows "\<exists>matches. find_all_templates e t (trace s) = Inr matches \<and> r \<in> set matches \<and>
           (\<forall>q\<in>set matches. snd r < snd q \<or> (snd r = snd q \<and> fst r \<le> fst q))"
proof (cases "find_all_templates e t (trace s)")
  case (Inl ex)
  with assms show ?thesis by (simp add: find_buttons_result)
next
  case (Inr matches)
  with assms have sk: "sort_key (\<lambda>x. (snd x, fst x)) matches = r # rest"
    by (simp add: find_buttons_result)
  have "r \<in> set (sort_key (\<lambda>x. (snd x, fst x)) matches)"
    by (simp add: sk)
  then have "r \<in> set matches" by simp
  moreover have "\<forall>q\<in>set matches. snd r < snd q \<or> (snd r = snd q \<and> fst r \<le> fst q)"
  proof
    fix q assume "q \<in> set matches"
    with sk have "(snd r, fst r) \<le> (snd q, fst q)"
      by (rule sort_key_head_least)
    then show "snd r < snd q \<or> (snd r = snd q \<and> fst r \<le> fst q)"
      by (auto simp: less_eq_prod_def)
  qed
  ultimately show ?thesis using Inr by blast
qed

lemma reject_candidate_aligned:
  assumes "fst (find_reject_buttons e s) = r # rest" and "\<bar>snd r - snd a\<bar> \<le> 10"
  shows "reject_candidate e name a s =
     bnd (call (HumanizedTap (fst r) (snd r)) (humanized_tap e (fst r) (snd r))) (\<lambda>_.
       bnd (call (FindAndTapTemplate ''confirm'' None) (find_and_tap_template e ''confirm'' None))
         (\<lambda>confirmed. if \<not> confirmed then ret Continue else ret Next))
       (s\<lparr>trace := trace s @ [FindAllTemplates ''reject'']\<rparr>)"
  using assms find_buttons_state [of "''reject''" e s]
  by (cases "find_buttons ''reject'' e s")
     (simp add: reject_candidate_def find_reject_buttons_def bnd_def lift_def)

lemma reject_candidate_misaligned:
  assumes "fst (find_reject_buttons e s) = r # rest" and "\<not> \<bar>snd r - snd a\<bar> \<le> 10"
  shows "reject_candidate e name a s = (Inr Next, s\<lparr>trace := trace s @ [FindAllTemplates ''reject'']\<rparr>)"
  using assms find_buttons_state [of "''reject''" e s]
  by (cases "find_buttons ''reject'' e s")
     (simp add: reject_candidate_def find_reject_buttons_def bnd_def lift_def ret_def)

lemma reject_candidate_none:
  assumes "fst (find_reject_buttons e s) = []"
  shows "reject_candidate e name a s =
     bnd (call (FindAndTapTemplate ''confirm'' None) (find_and_tap_template e ''confirm'' None))
       (\<lambda>confirmed. if confirmed then bnd (touch_last_approve e name) (\<lambda>_. ret Next)
          else ret Continue)
       (s\<lparr>trace := trace s @ [FindAllTemplates ''reject'']\<rparr>)"
  using assms find_buttons_state [of "''reject''" e s]
  by (cases "find_buttons ''reject'' e s")
     (simp add: reject_candidate_def find_reject_buttons_def bnd_def lift_def)

text \<open>
  Claim C3, as the code has it. The reject control looked at is the topmost one detected
  (no detected reject control is higher). If it is within 10 px of the accept control
  vertically, it is tapped, and the confirm control is asked for next. If it is more than
  10 px away, nothing is tapped. The confirm control is asked for directly when no reject
  control is detected at all.
\<close>

theorem reject_control_selection:
  "(\<forall>r rest. fst (find_reject_buttons e s) = r # rest \<and> \<bar>snd r - snd a\<bar> \<le> 10 \<longrightarrow>
      take 2 (new_events s (snd (reject_candidate e name a s))) =
        [FindAllTemplates ''reject'', HumanizedTap (fst r) (snd r)] \<and>
      (humanized_tap e (fst r) (snd r) (trace s @ [FindAllTemplates ''reject'']) = Inr () \<longrightarrow>
         new_events s (snd (reject_candidate e name a s)) =
           [FindAllTemplates ''reject'', HumanizedTap (fst r) (snd r),
            FindAndTapTemplate ''confirm'' None]) \<and>
      (\<exists>matches. find_all_templates e ''reject'' (trace s) = Inr matches \<and> r \<in> set matches \<and>
         (\<forall>q\<in>set matches. snd r \<le> snd q))) \<and>
   (\<forall>r rest. fst (find_reject_buttons e s) = r # rest \<and> \<not> \<bar>snd r - snd a\<bar> \<le> 10 \<longrightarrow>
      (\<forall>x y. HumanizedTap x y \<notin> set (new_events s (snd (reject_candidate e name a s))))) \<and>
   (fst (find_reject_buttons e s) = [] \<longrightarrow>
      new_events s (snd (reject_candidate e name a s)) =
        [FindAllTemplates ''reject'', FindAndTapTemplate ''confirm'' None])"
proof (intro conjI allI impI)
  fix r rest
  assume h: "fst (find_reject_buttons e s) = r # rest \<and> \<bar>snd r - snd a\<bar> \<le> 10"
  then have eq: "reject_candidate e name a s =
     bnd (call (HumanizedTap (fst r) (snd r)) (humanized_tap e (fst r) (snd r))) (\<lambda>_.
       bnd (call (FindAndTapTemplate ''confirm'' None) (find_and_tap_template e ''confirm'' None))
         (\<lambda>confirmed. if \<not> confirmed then ret Continue else ret Next))
       (s\<lparr>trace := trace s @ [FindAllTemplates ''reject'']\<rparr>)"
    using reject_candidate_aligned by blast
  show "take 2 (new_events s (snd (reject_candidate e name a s))) =
        [FindAllTemplates ''reject'', HumanizedTap (fst r) (snd r)]"
    unfolding eq by (simp add: new_events_def prog_evals split: sum.splits)
  show "\<exists>matches. find_all_templates e ''reject'' (trace s) = Inr matches \<and> r \<in> set matches \<and>
         (\<forall>q\<in>set matches. snd r \<le> snd q)"
    using find_buttons_topmost [of "''reject''" e s r rest] h
    by (fastforce simp: find_reject_buttons_def)
  assume "humanized_tap e (fst r) (snd r) (trace s @ [FindAllTemplates ''reject'']) = Inr ()"
  then show "new_events s (snd (reject_candidate e name a s)) =
           [FindAllTemplates ''reject'', HumanizedTap (fst r) (snd r),
            FindAndTapTemplate ''confirm'' None]"
    unfolding eq by (simp add: new_events_def prog_evals split: sum.splits)
next
  fix r rest x y
  assume "fst (find_reject_buttons e s) = r # rest \<and> \<not> \<bar>snd r - snd a\<bar> \<le> 10"
  then have "reject_candidate e name a s =
      (Inr Next, s\<lparr>trace := trace s @ [FindAllTemplates ''reject'']\<rparr>)"
    using reject_candidate_misaligned by blast
  then show "HumanizedTap x y \<notin> set (new_events s (snd (reject_candidate e name a s)))"
    by (simp add: new_events_def)
next
  assume "fst (find_reject_buttons e s) = []"
  then have eq: "reject_candidate e name a s =
     bnd (call (FindAndTapTemplate ''confirm'' None) (find_and_tap_template e ''confirm'' None))
       (\<lambda>confirmed. if confirmed then bnd (touch_last_approve e name) (\<lambda>_. ret Next)
          else ret Continue)
       (s\<lparr>trace := trace s @ [FindAllTemplates ''reject'']\<rparr>)"
    by (rule reject_candidate_none)
  show "new_events s (snd (reject_candidate e name a s)) =
        [FindAllTemplates ''reject'', FindAndTapTemplate ''confirm'' None]"
    unfolding eq by (simp add: new_events_def prog_evals touch_last_approve_def split: sum.splits)
qed


text \<open>
  Claim C3 as stated fails for a reject control 11 px away: it is not tapped, and the
  confirm control is not asked for either. The candidate is counted as processed.
\<close>

theorem misaligned_reject_counterexample:
  "fst (find_reject_buttons misaligned_env (init_state 0)) = [(300, 211)] \<and>
   \<bar>snd (300, 211) - snd (100, 200 :: int)\<bar> = (11 :: int) \<and>
   reject_candidate misaligned_env ''science'' (100, 200) (init_state 0) =
     (Inr Next, (init_state 0)\<lparr>trace := [FindAllTemplates ''reject'']\<rparr>) \<and>
   FindAndTapTemplate ''confirm'' None \<notin>
     set (trace (snd (reject_candidate misaligned_env ''science'' (100, 200) (init_state 0))))"
  by (simp add: routine_evals prog_evals misaligned_env_def env_evals)

text \<open>
  Three runs: the upper of two reject controls is 5 px from the accept control and is
  tapped; the only reject control is 11 px away and nothing is tapped; there is no reject
  control and the confirm control is asked for.
\<close>

theorem reject_control_selection_witness:
  "new_events (init_state 0) (snd (reject_candidate two_rows_env ''science'' (100, 200) (init_state 0)))
     = [FindAllTemplates ''reject'', HumanizedTap 300 205, FindAndTapTemplate ''confirm'' None] \<and>
   (\<forall>x y. HumanizedTap x y \<notin> set (new_events (init_state 0)
       (snd (reject_candidate misaligned_env ''science'' (100, 200) (init_state 0))))) \<and>
   new_events (init_state 0) (snd (reject_candidate quiet_env ''science'' (100, 200) (init_state 0)))
     = [FindAllTemplates ''reject'', FindAndTapTemplate ''confirm'' None]"
proof -
  have a: "fst (find_reject_buttons two_rows_env (init_state 0)) = (300, 205) # [(300, 420)] \<and>
      \<bar>snd (300, 205 :: int) - snd (100 :: int, 200 :: int)\<bar> \<le> 10"
    by (simp add: routine_evals prog_evals two_rows_env_def env_evals)
  have t: "humanized_tap two_rows_env (fst (300, 205)) (snd (300, 205))
      (trace (init_state 0) @ [FindAllTemplates ''reject'']) = Inr ()"
    by (simp add: two_rows_env_def env_evals)
  have m: "fst (find_reject_buttons misaligned_env (init_state 0)) = (300, 211) # [] \<and>
      \<not> \<bar>snd (300, 211 :: int) - snd (100 :: int, 200 :: int)\<bar> \<le> 10"
    by (simp add: routine_evals prog_evals misaligned_env_def env_evals)
  have n: "fst (find_reject_buttons quiet_env (init_state 0)) = []"
    by (simp add: routine_evals prog_evals env_evals)
  from reject_control_selection [of two_rows_env "init_state 0" "(100, 200)" "''science''"] a t
  have 1: "new_events (init_state 0)
      (snd (reject_candidate two_rows_env ''science'' (100, 200) (init_state 0)))
     = [FindAllTemplates ''reject'', HumanizedTap 300 205, FindAndTapTemplate ''confirm'' None]"
    by (metis fst_conv snd_conv)
  from reject_control_selection [of misaligned_env "init_state 0" "(100, 200)" "''science''"] m
  have 2: "\<forall>x y. HumanizedTap x y \<notin> set (new_events (init_state 0)
       (snd (reject_candidate misaligned_env ''science'' (100, 200) (init_state 0))))"
    by blast
  from reject_control_selection [of quiet_env "init_state 0" "(100, 200)" "''science''"] n
  have 3: "new_events (init_state 0)
      (snd (reject_candidate quiet_env ''science'' (100, 200) (init_state 0)))
     = [FindAllTemplates ''reject'', FindAndTapTemplate ''confirm'' None]"
    by blast
  from 1 2 3 show ?thesis by blast
qed

subsection \<open>The decision on a candidate\<close>

lemma manual_pause_trace:
  "\<exists>evs. trace (snd (manual_pause e s)) = trace s @ evs \<and> set evs \<subseteq> {PlayBeep, Input}"
  by (auto simp: manual_pause_def prog_evals split: sum.splits)

lemma reject_candidate_trace:
  "\<exists>evs. trace (snd (reject_candidate e name a s)) = trace s @ evs \<and>
     (\<forall>x y. HumanizedTap x y \<in> set evs \<longrightarrow>
        (\<exists>matches. find_all_templates e ''reject'' (trace s) = Inr matches \<and> (x, y) \<in> set matches))"
proof (cases "fst (find_reject_buttons e s)")
  case Nil
  show ?thesis
    unfolding reject_candidate_none [OF Nil]
    by (auto simp: prog_evals touch_last_approve_def split: sum.splits)
next
  case (Cons r rest)
  show ?thesis
  proof (cases "\<bar>snd r - snd a\<bar> \<le> 10")
    case False
    show ?thesis
      unfolding reject_candidate_misaligned [OF Cons False] by simp
  next
    case True
    obtain matches where m: "find_all_templates e ''reject'' (trace s) = Inr matches"
      and r: "r \<in> set matches"
      using find_buttons_topmost [of "''reject''" e s r rest] Cons
      by (auto simp: find_reject_buttons_def)
    show ?thesis
      unfolding reject_candidate_aligned [OF Cons True] using m r
      by (auto simp: prog_evals split: sum.splits)
  qed
qed

lemma handle_candidate_member:
  assumes "alliances \<noteq> []"
    and "get_text_regions e a img (trace s) = Inr (alliance_region, name_region, screenshot)"
    and "extract_text_from_region e alliance_region screenshot (trace s @ [GetTextRegions a img])
           = Inr (alliance_text, original_text)"
    and "alliance_text \<in> set alliances"
  shows "handle_candidate e alliances name a img s =
     bnd (call (HumanizedTap (fst a) (snd a)) (humanized_tap e (fst a) (snd a))) (\<lambda>_. ret Next)
       (s\<lparr>trace := trace s @ [GetTextRegions a img, ExtractText alliance_region screenshot]\<rparr>)"
  using assms by (simp add: handle_candidate_def bnd_def call_def)

lemma handle_candidate_other:
  assumes "alliances \<noteq> []"
    and "get_text_regions e a img (trace s) = Inr (alliance_region, name_region, screenshot)"
    and "extract_text_from_region e alliance_region screenshot (trace s @ [GetTextRegions a img])
           = Inr (alliance_text, original_text)"
    and "alliance_text \<notin> set alliances"
  shows "handle_candidate e alliances name a img s =
     bnd (call (LogRejectedAlliance alliance_text original_text)
            (log_rejected_alliance e alliance_text original_text)) (\<lambda>_.
       bnd (manual_pause e) (\<lambda>_. reject_candidate e name a))
       (s\<lparr>trace := trace s @ [GetTextRegions a img, ExtractText alliance_region screenshot]\<rparr>)"
  using assms by (simp add: handle_candidate_def bnd_def call_def)

lemma rejection_trace:
  "\<exists>evs. trace (snd (bnd (call (LogRejectedAlliance t orig) (log_rejected_alliance e t orig)) (\<lambda>_.
       bnd (manual_pause e) (\<lambda>_. reject_candidate e name a)) s))
       = trace s @ LogRejectedAlliance t orig # evs \<and>
     (\<forall>x y. HumanizedTap x y \<in> set evs \<longrightarrow>
        (\<exists>h matches. find_all_templates e ''reject'' h = Inr matches \<and> (x, y) \<in> set matches))"
proof -
  let ?s1 = "s\<lparr>trace := trace s @ [LogRejectedAlliance t orig]\<rparr>"
  show ?thesis
  proof (cases "log_rejected_alliance e t orig (trace s)")
    case (Inl ex)
    then show ?thesis by (simp add: bnd_def call_def)
  next
    case (Inr u)
    obtain evs1 where p: "trace (snd (manual_pause e ?s1)) = trace ?s1 @ evs1"
      and p2: "set evs1 \<subseteq> {PlayBeep, Input}"
      using manual_pause_trace by blast
    show ?thesis
    proof (cases "manual_pause e ?s1")
      case (Pair res s2)
      show ?thesis
      proof (cases res)
        case (Inl ex)
        with Inr Pair p p2 show ?thesis
          by (auto simp: bnd_def call_def)
      next
        case (Inr u2)
        obtain evs2 where q: "trace (snd (reject_candidate e name a s2)) = trace s2 @ evs2"
          and q2: "\<forall>x y. HumanizedTap x y \<in> set evs2 \<longrightarrow>
            (\<exists>matches. find_all_templates e ''reject'' (trace s2) = Inr matches \<and> (x, y) \<in> set matches)"
          using reject_candidate_trace by blast
        have "trace (snd (reject_candidate e name a s2)) =
            trace s @ LogRejectedAlliance t orig # (evs1 @ evs2)"
          using p q Pair by simp
        moreover have "\<forall>x y. HumanizedTap x y \<in> set (evs1 @ evs2) \<longrightarrow>
            (\<exists>h matches. find_all_templates e ''reject'' h = Inr matches \<and> (x, y) \<in> set matches)"
          using p2 q2 by auto blast
        ultimately show ?thesis
          using \<open>log_rejected_alliance e t orig (trace s) = Inr u\<close> Pair Inr
          by (auto simp: bnd_def call_def)
      qed
    qed
  qed
qed

text \<open>
  A pass through the loop body that finds a candidate at \<open>a\<close> is the decision on that
  candidate, followed by the settle delay when the candidate is counted.
\<close>

lemma admission_iteration_candidate:
  assumes "take_screenshot e (trace s) = Inr True"
    and "imread e (trace s @ [TakeScreenshot]) = Inr (Some img)"
    and "fst (find_accept_buttons e (s\<lparr>trace := trace s @ [TakeScreenshot, Imread]\<rparr>)) = a # rest"
  shows "admission_iteration e alliances name s =
     bnd (handle_candidate e alliances name a img) (\<lambda>fl.
       case fl of
         Next \<Rightarrow> bnd (call (HumanDelay settle_time 1) (human_delay e settle_time 1)) (\<lambda>_. ret Next)
       | _ \<Rightarrow> ret fl)
       (s\<lparr>trace := trace s @ [TakeScreenshot, Imread, FindAllTemplates ''accept'']\<rparr>)"
  using assms find_buttons_state [of "''accept''" e "s\<lparr>trace := trace s @ [TakeScreenshot, Imread]\<rparr>"]
  by (cases "find_buttons ''accept'' e (s\<lparr>trace := trace s @ [TakeScreenshot, Imread]\<rparr>)")
     (simp add: admission_iteration_def find_accept_buttons_def bnd_def call_def lift_def)

text \<open>
  On every device, accepting a whitelisted candidate leaves all timers as they were.
\<close>

lemma whitelisted_accept_timers:
  assumes "alliances \<noteq> []"
    and "get_text_regions e a img (trace s) = Inr (alliance_region, name_region, screenshot)"
    and "extract_text_from_region e alliance_region screenshot (trace s @ [GetTextRegions a img])
           = Inr (alliance_text, original_text)"
    and "alliance_text \<in> set alliances"
  shows "last_approve (snd (handle_candidate e alliances name a img s)) = last_approve s"
  unfolding handle_candidate_member [OF assms]
  by (simp add: prog_evals split: sum.splits)

text \<open>
  Claim C6. The whitelist is not empty, and the text regions and the alliance text of the
  candidate at \<open>a\<close> have been extracted. Then the call that follows the extraction is the
  tap on the accept control if and only if the alliance text is an element of the
  whitelist (equality of strings, so the case matters). For a member that tap is the only
  further call. For any other text the call that follows logs the text with
  \<open>log_rejected_alliance\<close>, and the run continues with the manual pause and the reject
  control. On a device that never detects a reject control at the position of the accept
  control, no later call of a rejection taps the accept control either: the accept control
  is tapped at all if and only if the text is a member.
\<close>

theorem whitelist_decides:
  assumes "alliances \<noteq> []"
    and "get_text_regions e a img (trace s) = Inr (alliance_region, name_region, screenshot)"
    and "extract_text_from_region e alliance_region screenshot (trace s @ [GetTextRegions a img])
           = Inr (alliance_text, original_text)"
  shows "(take 3 (new_events s (snd (handle_candidate e alliances name a img s))) =
            [GetTextRegions a img, ExtractText alliance_region screenshot,
             HumanizedTap (fst a) (snd a)]
          \<longleftrightarrow> alliance_text \<in> set alliances) \<and>
         (alliance_text \<in> set alliances \<longrightarrow>
            new_events s (snd (handle_candidate e alliances name a img s)) =
              [GetTextRegions a img, ExtractText alliance_region screenshot,
               HumanizedTap (fst a) (snd a)]) \<and>
         (alliance_text \<notin> set alliances \<longrightarrow>
            take 3 (new_events s (snd (handle_candidate e alliances name a img s))) =
              [GetTextRegions a img, ExtractText alliance_region screenshot,
               LogRejectedAlliance alliance_text original_text] \<and>
            handle_candidate e alliances name a img s =
              bnd (call (LogRejectedAlliance alliance_text original_text)
                     (log_rejected_alliance e alliance_text original_text)) (\<lambda>_.
                bnd (manual_pause e) (\<lambda>_. reject_candidate e name a))
                (s\<lparr>trace := trace s @
                    [GetTextRegions a img, ExtractText alliance_region screenshot]\<rparr>)) \<and>
         ((\<forall>h matches. find_all_templates e ''reject'' h = Inr matches \<longrightarrow> a \<notin> set matches) \<longrightarrow>
            (HumanizedTap (fst a) (snd a)
               \<in> set (new_events s (snd (handle_candidate e alliances name a img s)))
             \<longleftrightarrow> alliance_text \<in> set alliances))"
proof (cases "alliance_text \<in> set alliances")
  case True
  have "new_events s (snd (handle_candidate e alliances name a img s)) =
      [GetTextRegions a img, ExtractText alliance_region screenshot, HumanizedTap (fst a) (snd a)]"
    unfolding handle_candidate_member [OF assms(1-3) True]
    by (simp add: new_events_def prog_evals split: sum.splits)
  with True show ?thesis by simp
next
  case False
  let ?s1 = "s\<lparr>trace := trace s @ [GetTextRegions a img, ExtractText alliance_region screenshot]\<rparr>"
  note eq = handle_candidate_other [OF assms(1-3) False]
  obtain evs where t: "trace (snd (handle_candidate e alliances name a img s)) =
      trace ?s1 @ LogRejectedAlliance alliance_text original_text # evs"
    and taps: "\<forall>x y. HumanizedTap x y \<in> set evs \<longrightarrow>
        (\<exists>h matches. find_all_templates e ''reject'' h = Inr matches \<and> (x, y) \<in> set matches)"
    unfolding eq using rejection_trace [of alliance_text original_text e name a ?s1] by blast
  have ne: "new_events s (snd (handle_candidate e alliances name a img s)) =
      [GetTextRegions a img, ExtractText alliance_region screenshot,
       LogRejectedAlliance alliance_text original_text] @ evs"
    using t by (simp add: new_events_def)
  have logged: "take 3 (new_events s (snd (handle_candidate e alliances name a img s))) =
      [GetTextRegions a img, ExtractText alliance_region screenshot,
       LogRejectedAlliance alliance_text original_text]"
    by (simp add: ne)
  have first: "take 3 (new_events s (snd (handle_candidate e alliances name a img s))) \<noteq>
      [GetTextRegions a img, ExtractText alliance_region screenshot, HumanizedTap (fst a) (snd a)]"
    unfolding logged by simp
  have never: "HumanizedTap (fst a) (snd a)
      \<notin> set (new_events s (snd (handle_candidate e alliances name a img s)))"
    if apart: "\<forall>h matches. find_all_templates e ''reject'' h = Inr matches \<longrightarrow> a \<notin> set matches"
  proof -
    have "HumanizedTap (fst a) (snd a) \<notin> set evs"
    proof
      assume "HumanizedTap (fst a) (snd a) \<in> set evs"
      with taps obtain h matches where "find_all_templates e ''reject'' h = Inr matches"
        and "(fst a, snd a) \<in> set matches" by blast
      with apart show False by auto
    qed
    then show ?thesis by (simp add: ne)
  qed
  from False logged first never eq show ?thesis
    by blast
qed


text \<open>
  With the whitelist ABC: the text ABC is accepted by a tap at (100, 200); the text abc is
  logged and not accepted.
\<close>

theorem whitelist_decides_witness:
  "HumanizedTap 100 200 \<in> set (new_events (init_state 0)
      (snd (handle_candidate abc_env [''ABC''] ''science'' (100, 200) 0 (init_state 0)))) \<and>
   HumanizedTap 100 200 \<notin> set (new_events (init_state 0)
      (snd (handle_candidate lowercase_env [''ABC''] ''science'' (100, 200) 0 (init_state 0)))) \<and>
   take 3 (new_events (init_state 0)
      (snd (handle_candidate lowercase_env [''ABC''] ''science'' (100, 200) 0 (init_state 0)))) =
     [GetTextRegions (100, 200) 0, ExtractText (0, 0, 0, 0) 0, LogRejectedAlliance ''abc'' ''aBc'']"
proof -
  have w: "[''ABC''] \<noteq> []" by simp
  have g1: "get_text_regions abc_env (100, 200) 0 (trace (init_state 0)) =
      Inr ((0, 0, 0, 0), (0, 0, 0, 0), 0)"
    by (simp add: abc_env_def env_evals)
  have x1: "extract_text_from_region abc_env (0, 0, 0, 0) 0
      (trace (init_state 0) @ [GetTextRegions (100, 200) 0]) = Inr (''ABC'', ''ABC'')"
    by (simp add: abc_env_def env_evals)
  have r1: "\<forall>h matches. find_all_templates abc_env ''reject'' h = Inr matches \<longrightarrow>
      (100 :: int, 200 :: int) \<notin> set matches"
    by (auto simp: abc_env_def env_evals)
  have g2: "get_text_regions lowercase_env (100, 200) 0 (trace (init_state 0)) =
      Inr ((0, 0, 0, 0), (0, 0, 0, 0), 0)"
    by (simp add: lowercase_env_def env_evals)
  have x2: "extract_text_from_region lowercase_env (0, 0, 0, 0) 0
      (trace (init_state 0) @ [GetTextRegions (100, 200) 0]) = Inr (''abc'', ''aBc'')"
    by (simp add: lowercase_env_def env_evals)
  have r2: "\<forall>h matches. find_all_templates lowercase_env ''reject'' h = Inr matches \<longrightarrow>
      (100 :: int, 200 :: int) \<notin> set matches"
    by (auto simp: lowercase_env_def env_evals)
  note member = whitelist_decides [OF w g1 x1, of "''science''", unfolded fst_conv snd_conv]
  note other = whitelist_decides [OF w g2 x2, of "''science''", unfolded fst_conv snd_conv]
  have "''ABC'' \<in> set [''ABC'']" and "''abc'' \<notin> set [''ABC'']"
    by simp_all
  with member other r1 r2 show ?thesis
    by blast
qed

text \<open>
  Claim C7, as the code has it. With an empty whitelist the first call for a candidate is
  the tap on its accept control, whatever the device answers. When the tap returns, the
  pass ends counted, \<open>last_approve\<close> of the position is the time read after the tap, and no
  other timer is changed. The time is stored without a look at the timer it replaces.
\<close>

theorem accept_all:
  "take 1 (new_events s (snd (handle_candidate e [] name a img s))) =
     [HumanizedTap (fst a) (snd a)] \<and>
   (humanized_tap e (fst a) (snd a) (trace s) = Inr () \<longrightarrow>
      handle_candidate e [] name a img s =
        (Inr Next,
         s\<lparr>trace := trace s @ [HumanizedTap (fst a) (snd a)],
           last_approve := (last_approve s)
             (name \<mapsto> now e (trace s @ [HumanizedTap (fst a) (snd a)]))\<rparr>) \<and>
      last_approve (snd (handle_candidate e [] name a img s)) name =
        Some (now e (trace s @ [HumanizedTap (fst a) (snd a)])) \<and>
      (\<forall>q. q \<noteq> name \<longrightarrow>
         last_approve (snd (handle_candidate e [] name a img s)) q = last_approve s q))"
  by (simp add: handle_candidate_def new_events_def prog_evals touch_last_approve_def
      split: sum.splits)

text \<open>The timer of science goes from 0 to 1001, the time read after the tap.\<close>

theorem accept_all_witness:
  "handle_candidate crowded_env [] ''science'' (100, 200) 0 (init_state 0) =
     (Inr Next,
      (init_state 0)\<lparr>trace := [HumanizedTap 100 200],
        last_approve := (last_approve (init_state 0))(''science'' \<mapsto> 1001)\<rparr>) \<and>
   last_approve (snd (handle_candidate crowded_env [] ''science'' (100, 200) 0 (init_state 0)))
     ''science'' = Some 1001"
proof -
  have t: "humanized_tap crowded_env (fst (100 :: int, 200 :: int)) (snd (100 :: int, 200 :: int))
      (trace (init_state 0)) = Inr ()"
    by (simp add: crowded_env_def env_evals)
  have n': "now crowded_env [HumanizedTap 100 200] = 1001"
    by (simp add: crowded_env_def env_evals)
  have tr: "trace (init_state 0) = []"
    by (simp add: env_evals)
  show ?thesis
    using accept_all [of "init_state 0" crowded_env "''science''" "(100, 200)" 0] t
    by (simp add: n' tr)
qed

text \<open>
  Claim C7 as stated fails where the clock reads earlier than the timer: the timer of
  science goes from 10 back to 5.
\<close>

theorem accept_all_backward_counterexample:
  "last_approve (init_state 10) ''science'' = Some 10 \<and>
   handle_candidate backward_env [] ''science'' (100, 200) 0 (init_state 10) =
     (Inr Next,
      (init_state 10)\<lparr>trace := [HumanizedTap 100 200],
        last_approve := (last_approve (init_state 10))(''science'' \<mapsto> 5)\<rparr>) \<and>
   last_approve (snd (handle_candidate backward_env [] ''science'' (100, 200) 0 (init_state 10)))
     ''science'' = Some 5"
  by (simp add: handle_candidate_def prog_evals touch_last_approve_def backward_env_def
      crowded_env_def env_evals)

section \<open>Positions with applicants\<close>

lemma update_fresh: "k \<notin> fst ` set al \<Longrightarrow> AList.update k v al = al @ [(k, v)]"
  by (induction al) auto

lemma first_matches_Cons:
  "first_matches (t # ts) (found # others) =
     (if found = [] then first_matches ts others else (t, hd found) # first_matches ts others)"
  by (simp add: first_matches_def)

lemma fst_first_matches: "fst ` set (first_matches ts icons) \<subseteq> set ts"
  by (auto simp: first_matches_def dest: set_zip_leftD)

lemma locate_positions_run:
  "responds e (trace s) ts icons \<Longrightarrow> distinct ts \<Longrightarrow> set ts \<inter> fst ` set acc = {} \<Longrightarrow>
   locate_positions e ts acc s =
     (Inr (acc @ first_matches ts icons), s\<lparr>trace := trace s @ map FindAllTemplates ts\<rparr>)"
proof (induction ts arbitrary: acc s icons)
  case Nil
  then show ?case by (simp add: ret_def first_matches_def)
next
  case (Cons t ts)
  from Cons.prems(1) obtain found others where icons: "icons = found # others"
    and f: "find_all_templates e t (trace s) = Inr found"
    and r: "responds e (trace s @ [FindAllTemplates t]) ts others"
    by (auto split: list.splits)
  let ?s1 = "s\<lparr>trace := trace s @ [FindAllTemplates t]\<rparr>"
  let ?acc1 = "case found of [] \<Rightarrow> acc | first # _ \<Rightarrow> AList.update t first acc"
  have step: "locate_positions e (t # ts) acc s = locate_positions e ts ?acc1 ?s1"
    using f by (simp add: bnd_def call_def)
  have t_fresh: "t \<notin> fst ` set acc"
    using Cons.prems(3) by auto
  have acc1: "?acc1 = acc @ (if found = [] then [] else [(t, hd found)])"
    using t_fresh by (cases found) (simp_all add: update_fresh)
  have disj: "set ts \<inter> fst ` set ?acc1 = {}"
    using Cons.prems(2,3) unfolding acc1 by auto
  have r': "responds e (trace ?s1) ts others"
    using r by simp
  have d: "distinct ts"
    using Cons.prems(2) by simp
  have "locate_positions e ts ?acc1 ?s1 =
      (Inr (?acc1 @ first_matches ts others), ?s1\<lparr>trace := trace ?s1 @ map FindAllTemplates ts\<rparr>)"
    using r' d disj by (rule Cons.IH)
  then show ?case
    unfolding step acc1 icons by (simp add: first_matches_Cons)
qed

lemma applicant_nearby_iff:
  "applicant_nearby offset pos_loc apps \<longleftrightarrow> (\<exists>app\<in>set apps. near offset pos_loc app)"
  by (induction apps) (auto simp: near_def)

lemma match_applicants_filter:
  "match_applicants offset apps items acc =
     acc @ map fst (filter (\<lambda>item. applicant_nearby offset (snd item) apps) items)"
  by (induction items arbitrary: acc) simp_all

lemma responds_length: "responds e h ts icons \<Longrightarrow> length icons = length ts"
  by (induction ts arbitrary: h icons) (auto split: list.splits)

lemma distinct_first_matches:
  "distinct ts \<Longrightarrow> distinct (map fst (first_matches ts icons))"
proof -
  assume "distinct ts"
  then have "distinct (map fst (zip ts icons))"
    by (simp add: map_fst_zip_take distinct_take)
  then have "distinct (map fst (filter (\<lambda>(t, found). found \<noteq> []) (zip ts icons)))"
    by (rule distinct_map_filter)
  moreover have "map fst (first_matches ts icons) =
      map fst (filter (\<lambda>(t, found). found \<noteq> []) (zip ts icons))"
    by (simp add: first_matches_def case_prod_unfold comp_def)
  ultimately show ?thesis by simp
qed

lemma types_distinct: "distinct (secretary_types @ additionalTypes)"
  by (simp add: secretary_types_def additionalTypes_def)

lemma find_positions_with_applicants_run:
  assumes "responds e (trace s) (secretary_types @ additionalTypes) icons"
    and "find_all_templates e ''has_applicant''
           (trace s @ map FindAllTemplates (secretary_types @ additionalTypes)) = Inr badges"
  shows "fst (find_positions_with_applicants e configured s) =
     (if badges = [] then []
      else map fst (filter (\<lambda>item. applicant_nearby (applicant_offset configured) (snd item) badges)
             (first_matches (secretary_types @ additionalTypes) icons)))"
proof -
  have "locate_positions e (secretary_types @ additionalTypes) [] s =
     (Inr ([] @ first_matches (secretary_types @ additionalTypes) icons),
      s\<lparr>trace := trace s @ map FindAllTemplates (secretary_types @ additionalTypes)\<rparr>)"
    using assms(1) types_distinct by (rule locate_positions_run) simp
  then show ?thesis
    using assms(2)
    by (simp add: find_positions_with_applicants_def bnd_def call_def ret_def
        match_applicants_filter)
qed

text \<open>
  Claim C5. When the matcher answers for every position type and for the applicant icon,
  a position is in the result of \<open>find_positions_with_applicants\<close> if and only if its
  icon was found and some applicant icon is within the offset of the icon's first match
  in both coordinates; no position is in the result twice; without applicant icons the
  result is empty; and the offset is (150, 50) when none is configured.
\<close>

theorem applicants_by_proximity:
  assumes "responds e (trace s) (secretary_types @ additionalTypes) icons"
    and "find_all_templates e ''has_applicant''
           (trace s @ map FindAllTemplates (secretary_types @ additionalTypes)) = Inr badges"
  shows "(p \<in> set (fst (find_positions_with_applicants e configured s)) \<longleftrightarrow>
            (\<exists>found. (p, found) \<in> set (zip (secretary_types @ additionalTypes) icons) \<and>
               found \<noteq> [] \<and>
               (\<exists>badge\<in>set badges. near (applicant_offset configured) (hd found) badge))) \<and>
         distinct (fst (find_positions_with_applicants e configured s)) \<and>
         (badges = [] \<longrightarrow> fst (find_positions_with_applicants e configured s) = []) \<and>
         applicant_offset None = (150, 50)"
proof (intro conjI)
  note run = find_positions_with_applicants_run [OF assms, of configured]
  show "p \<in> set (fst (find_positions_with_applicants e configured s)) \<longleftrightarrow>
      (\<exists>found. (p, found) \<in> set (zip (secretary_types @ additionalTypes) icons) \<and> found \<noteq> [] \<and>
         (\<exists>badge\<in>set badges. near (applicant_offset configured) (hd found) badge))"
    unfolding run by (force simp: first_matches_def applicant_nearby_iff)
  show "distinct (fst (find_positions_with_applicants e configured s))"
    unfolding run
    using distinct_map_filter [OF distinct_first_matches [OF types_distinct]]
    by simp
  show "badges = [] \<longrightarrow> fst (find_positions_with_applicants e configured s) = []"
    unfolding run by simp
  show "applicant_offset None = (150, 50)"
    by (simp add: applicant_offset_def)
qed


text \<open>
  The applicant icon at the very edge of the offset counts for science; military, 160 px
  from the nearest icon, and strategy, whose icon is not found, are not reported; with
  an offset one pixel smaller in either coordinate science is not reported.
\<close>

theorem applicants_by_proximity_witness:
  "''science'' \<in> set (fst (find_positions_with_applicants lobby_env None (init_state 0))) \<and>
   ''military'' \<notin> set (fst (find_positions_with_applicants lobby_env None (init_state 0))) \<and>
   ''strategy'' \<notin> set (fst (find_positions_with_applicants lobby_env None (init_state 0))) \<and>
   ''science'' \<notin> set (fst (find_positions_with_applicants lobby_env (Some (149, 50)) (init_state 0))) \<and>
   ''science'' \<notin> set (fst (find_positions_with_applicants lobby_env (Some (150, 49)) (init_state 0)))"
proof -
  let ?icons = "[[], [], [], [(500, 800), (900, 900)], [], [(200, 300)], []] :: point list list"
  let ?badges = "[(40, 40), (650, 850)] :: point list"
  have r: "responds lobby_env (trace (init_state 0)) (secretary_types @ additionalTypes) ?icons"
    by (simp add: lobby_env_def env_evals)
  have b: "find_all_templates lobby_env ''has_applicant''
      (trace (init_state 0) @ map FindAllTemplates (secretary_types @ additionalTypes)) = Inr ?badges"
    by (simp add: lobby_env_def env_evals)
  have z: "zip (secretary_types @ additionalTypes) ?icons =
      [(''strategy'', []), (''security'', []), (''development'', []),
       (''science'', [(500, 800), (900, 900)]), (''interior'', []),
       (''military'', [(200, 300)]), (''administrative'', [])]"
    by (simp add: secretary_types_def additionalTypes_def)
  note prox = applicants_by_proximity [OF r b, unfolded z]
  have 1: "''science'' \<in> set (fst (find_positions_with_applicants lobby_env None (init_state 0)))"
    using prox [of "''science''" None] by (simp add: near_def applicant_offset_def)
  have 2: "''military'' \<notin> set (fst (find_positions_with_applicants lobby_env None (init_state 0)))"
    using prox [of "''military''" None] by (simp add: near_def applicant_offset_def)
  have 3: "''strategy'' \<notin> set (fst (find_positions_with_applicants lobby_env None (init_state 0)))"
    using prox [of "''strategy''" None] by (simp add: near_def applicant_offset_def)
  have 4: "''science'' \<notin> set (fst (find_positions_with_applicants lobby_env (Some (149, 50)) (init_state 0)))"
    using prox [of "''science''" "Some (149, 50)"] by (simp add: near_def applicant_offset_def)
  have 5: "''science'' \<notin> set (fst (find_positions_with_applicants lobby_env (Some (150, 49)) (init_state 0)))"
    using prox [of "''science''" "Some (150, 49)"] by (simp add: near_def applicant_offset_def)
  from 1 2 3 4 5 show ?thesis by blast
qed

section \<open>Positions to remove\<close>

lemma remove_due_not_due:
  assumes "map_of delays p = Some D" and "D \<noteq> 0" and "\<bar>D div 86400\<bar> \<le> 999999999"
    and "last_approve s p = Some approved" and "now e (trace s) - approved < D * 1000000"
  shows "remove_due e delays p s = (Inr False, s)"
  using assms by (simp add: remove_due_def timedelta_seconds_def)

lemma remove_due_due:
  assumes "map_of delays p = Some D" and "D \<noteq> 0" and "\<bar>D div 86400\<bar> \<le> 999999999"
    and "last_approve s p = Some approved" and "\<not> now e (trace s) - approved < D * 1000000"
  shows "remove_due e delays p s =
     bnd (call (FindTemplate (''vacant-'' @ p)) (find_template e (''vacant-'' @ p))) (\<lambda>vacant.
       if vacant \<noteq> None then bnd (touch_last_approve e p) (\<lambda>_. ret False)
       else bnd (call (FindTemplate p) (find_template e p)) (\<lambda>position. ret (position \<noteq> None))) s"
  using assms by (simp add: remove_due_def timedelta_seconds_def)

lemma remove_due_other_timers:
  "q \<noteq> p \<Longrightarrow> last_approve (snd (remove_due e delays p s)) q = last_approve s q"
  by (auto simp: remove_due_def prog_evals touch_last_approve_def
      split: option.splits sum.splits if_splits)

lemma remove_due_own_timer:
  assumes "trace s2 = trace s" and "last_approve s2 p = last_approve s p"
  shows "fst (remove_due e delays p s2) = fst (remove_due e delays p s)"
  using assms
  by (auto simp: remove_due_def prog_evals touch_last_approve_def
      split: option.splits sum.splits if_splits)

text \<open>
  The body of the loop for one position. The position has the delay \<open>D\<close> seconds
  configured (not 0, and a number of seconds \<open>timedelta\<close> accepts), and its timer was set
  \<open>d\<close> microseconds before the current time. If \<open>d\<close> is less than \<open>D\<close> seconds the position
  is skipped with nothing asked and nothing changed. Otherwise the next call asks for the
  vacancy template, and the position is appended exactly when, in addition, it is not
  vacant and its icon is found; a vacant position is not appended and its timer is set to
  the current time. The outcome depends on no other timer than the position's own, and no
  other timer is changed.
\<close>

lemma remove_due_cooldown:
  assumes "map_of delays p = Some D" and "D \<noteq> 0" and "\<bar>D div 86400\<bar> \<le> 999999999"
    and "last_approve s p = Some (now e (trace s) - d)"
  shows "(d < D * 1000000 \<longrightarrow> remove_due e delays p s = (Inr False, s)) \<and>
         (D * 1000000 \<le> d \<longrightarrow>
            take 1 (new_events s (snd (remove_due e delays p s))) = [FindTemplate (''vacant-'' @ p)]) \<and>
         (fst (remove_due e delays p s) = Inr True \<longleftrightarrow>
            D * 1000000 \<le> d \<and>
            find_template e (''vacant-'' @ p) (trace s) = Inr None \<and>
            (\<exists>icon. find_template e p (trace s @ [FindTemplate (''vacant-'' @ p)]) = Inr (Some icon))) \<and>
         (D * 1000000 \<le> d \<and> (\<exists>v. find_template e (''vacant-'' @ p) (trace s) = Inr (Some v)) \<longrightarrow>
            remove_due e delays p s =
              (Inr False,
               s\<lparr>trace := trace s @ [FindTemplate (''vacant-'' @ p)],
                 last_approve := (last_approve s)
                   (p \<mapsto> now e (trace s @ [FindTemplate (''vacant-'' @ p)]))\<rparr>)) \<and>
         (\<forall>s2. trace s2 = trace s \<and> last_approve s2 p = last_approve s p \<longrightarrow>
            fst (remove_due e delays p s2) = fst (remove_due e delays p s)) \<and>
         (\<forall>q. q \<noteq> p \<longrightarrow> last_approve (snd (remove_due e delays p s)) q = last_approve s q)"
proof -
  let ?due = "bnd (call (FindTemplate (''vacant-'' @ p)) (find_template e (''vacant-'' @ p)))
     (\<lambda>vacant.
       if vacant \<noteq> None then bnd (touch_last_approve e p) (\<lambda>_. ret False)
       else bnd (call (FindTemplate p) (find_template e p)) (\<lambda>position. ret (position \<noteq> None))) s"
  have early: "remove_due e delays p s = (Inr False, s)" if "d < D * 1000000"
  proof -
    from that have "now e (trace s) - (now e (trace s) - d) < D * 1000000"
      by simp
    with assms show ?thesis
      by (rule remove_due_not_due)
  qed
  have late: "remove_due e delays p s = ?due" if "D * 1000000 \<le> d"
  proof -
    from that have "\<not> now e (trace s) - (now e (trace s) - d) < D * 1000000"
      by simp
    with assms show ?thesis
      by (rule remove_due_due)
  qed
  have 1: "d < D * 1000000 \<longrightarrow> remove_due e delays p s = (Inr False, s)"
    using early by blast
  have 2: "D * 1000000 \<le> d \<longrightarrow>
      take 1 (new_events s (snd (remove_due e delays p s))) = [FindTemplate (''vacant-'' @ p)]"
  proof
    assume "D * 1000000 \<le> d"
    then have eq: "remove_due e delays p s = ?due" by (rule late)
    show "take 1 (new_events s (snd (remove_due e delays p s))) = [FindTemplate (''vacant-'' @ p)]"
      unfolding eq
      by (simp add: new_events_def prog_evals touch_last_approve_def
          split: sum.splits option.splits)
  qed
  have 3: "fst (remove_due e delays p s) = Inr True \<longleftrightarrow>
      D * 1000000 \<le> d \<and>
      find_template e (''vacant-'' @ p) (trace s) = Inr None \<and>
      (\<exists>icon. find_template e p (trace s @ [FindTemplate (''vacant-'' @ p)]) = Inr (Some icon))"
  proof (cases "d < D * 1000000")
    case True
    with early show ?thesis by simp
  next
    case False
    then have eq: "remove_due e delays p s = ?due" using late by simp
    have "fst ?due = Inr True \<longleftrightarrow>
      find_template e (''vacant-'' @ p) (trace s) = Inr None \<and>
      (\<exists>icon. find_template e p (trace s @ [FindTemplate (''vacant-'' @ p)]) = Inr (Some icon))"
    proof (cases "find_template e (''vacant-'' @ p) (trace s)")
      case (Inl ex)
      then show ?thesis by (simp add: prog_evals)
    next
      case (Inr vacant)
      show ?thesis
      proof (cases vacant)
        case (Some v)
        with Inr show ?thesis by (simp add: prog_evals touch_last_approve_def)
      next
        case None
        with Inr show ?thesis
          by (cases "find_template e p (trace s @ [FindTemplate (''vacant-'' @ p)])")
             (auto simp: prog_evals)
      qed
    qed
    with False show ?thesis unfolding eq by simp
  qed
  have 4: "D * 1000000 \<le> d \<and> (\<exists>v. find_template e (''vacant-'' @ p) (trace s) = Inr (Some v)) \<longrightarrow>
      remove_due e delays p s =
        (Inr False,
         s\<lparr>trace := trace s @ [FindTemplate (''vacant-'' @ p)],
           last_approve := (last_approve s)
             (p \<mapsto> now e (trace s @ [FindTemplate (''vacant-'' @ p)]))\<rparr>)"
  proof
    assume a: "D * 1000000 \<le> d \<and> (\<exists>v. find_template e (''vacant-'' @ p) (trace s) = Inr (Some v))"
    then have eq: "remove_due e delays p s = ?due" using late by simp
    from a obtain v where "find_template e (''vacant-'' @ p) (trace s) = Inr (Some v)"
      by blast
    then show "remove_due e delays p s =
        (Inr False,
         s\<lparr>trace := trace s @ [FindTemplate (''vacant-'' @ p)],
           last_approve := (last_approve s)
             (p \<mapsto> now e (trace s @ [FindTemplate (''vacant-'' @ p)]))\<rparr>)"
      unfolding eq by (simp add: prog_evals touch_last_approve_def)
  qed
  have 5: "\<forall>s2. trace s2 = trace s \<and> last_approve s2 p = last_approve s p \<longrightarrow>
      fst (remove_due e delays p s2) = fst (remove_due e delays p s)"
    using remove_due_own_timer by blast
  have 6: "\<forall>q. q \<noteq> p \<longrightarrow> last_approve (snd (remove_due e delays p s)) q = last_approve s q"
    using remove_due_other_timers by blast
  from 1 2 3 4 5 6 show ?thesis
    by (intro conjI)
qed


lemmas remove_evals = remove_due_def timedelta_seconds_def touch_last_approve_def

lemma remove_due_effective:
  "effective_delay delays1 p = effective_delay delays2 p \<Longrightarrow>
   remove_due e delays1 p s = remove_due e delays2 p s"
  by (auto simp: effective_delay_def remove_due_def split: option.splits if_splits)

lemma remove_loop_effective:
  "\<forall>p. effective_delay delays1 p = effective_delay delays2 p \<Longrightarrow>
   remove_loop e delays1 ps acc s = remove_loop e delays2 ps acc s"
proof (induction ps arbitrary: acc s)
  case Nil
  show ?case by simp
next
  case (Cons p ps)
  have "remove_due e delays1 p = remove_due e delays2 p"
    using Cons.prems remove_due_effective by blast
  moreover have "\<And>acc s. remove_loop e delays1 ps acc s = remove_loop e delays2 ps acc s"
    using Cons by blast
  ultimately show ?case
    by (simp add: bnd_def split: prod.splits sum.splits)
qed

lemma remove_loop_unconfigured: "remove_loop e [] ps acc s = (Inr acc, s)"
  by (induction ps arbitrary: acc s) (simp_all add: ret_def bnd_def remove_due_def)

lemma remove_due_True:
  "remove_due e delays p s = (Inr True, s') \<Longrightarrow> effective_delay delays p \<noteq> None"
  by (auto simp: effective_delay_def remove_due_def ret_def split: option.splits if_splits)

lemma remove_loop_members:
  "remove_loop e delays ps acc s = (Inr r, s') \<Longrightarrow> q \<in> set r \<Longrightarrow>
   q \<in> set acc \<or> effective_delay delays q \<noteq> None"
proof (induction ps arbitrary: acc s)
  case Nil
  then show ?case by (simp add: ret_def)
next
  case (Cons p ps)
  obtain res s1 where d: "remove_due e delays p s = (res, s1)"
    by (cases "remove_due e delays p s")
  show ?case
  proof (cases res)
    case (Inl ex)
    with d Cons.prems show ?thesis by (simp add: bnd_def)
  next
    case (Inr due)
    with d Cons.prems(1)
    have "remove_loop e delays ps (if due then acc @ [p] else acc) s1 = (Inr r, s')"
      by (simp add: bnd_def)
    then have "q \<in> set (if due then acc @ [p] else acc) \<or> effective_delay delays q \<noteq> None"
      using Cons.prems(2) by (rule Cons.IH)
    moreover have "effective_delay delays p \<noteq> None" if "due"
    proof -
      from d Inr that have "remove_due e delays p s = (Inr True, s1)"
        by simp
      then show ?thesis
        by (rule remove_due_True)
    qed
    ultimately show ?thesis
      by (auto split: if_splits)
  qed
qed

lemma find_positions_to_remove_loop:
  "find_positions_to_remove e (Some \<lparr>active = a, title_cfg = Some delays\<rparr>) s =
     (case remove_loop e delays (secretary_types @ additionalTypes) [] s of
        (Inl ex, s') \<Rightarrow> ([], s')
      | (Inr positions_to_remove, s') \<Rightarrow> (positions_to_remove, s'))"
  by (cases delays) (simp_all add: find_positions_to_remove_def remove_loop_unconfigured)

text \<open>
  Claim C10. A position with the delay 0 is skipped by the loop body with nothing asked
  and nothing changed, as it is when its key is deleted from \<open>title_cfg\<close>; it is never in
  the result of \<open>find_positions_to_remove\<close>, whatever its timer and the clock; and the
  whole function returns what it returns with the key deleted.
\<close>

theorem zero_delay_unconfigured:
  assumes "map_of delays p = Some 0"
  shows "remove_due e delays p s = (Inr False, s) \<and>
         remove_due e delays p s = remove_due e (AList.delete p delays) p s \<and>
         p \<notin> set (fst (find_positions_to_remove e
                (Some \<lparr>active = a, title_cfg = Some delays\<rparr>) s)) \<and>
         find_positions_to_remove e (Some \<lparr>active = a, title_cfg = Some delays\<rparr>) s =
           find_positions_to_remove e
             (Some \<lparr>active = a, title_cfg = Some (AList.delete p delays)\<rparr>) s"
proof -
  have eff: "\<forall>q. effective_delay delays q = effective_delay (AList.delete p delays) q"
    using assms by (simp add: effective_delay_def delete_conv)
  have none: "effective_delay delays p = None"
    using assms by (simp add: effective_delay_def)
  have 1: "remove_due e delays p s = (Inr False, s)"
    using assms by (simp add: remove_due_def)
  have 2: "remove_due e delays p s = remove_due e (AList.delete p delays) p s"
    using eff remove_due_effective by blast
  have 3: "p \<notin> set (fst (find_positions_to_remove e
      (Some \<lparr>active = a, title_cfg = Some delays\<rparr>) s))"
  proof
    assume m: "p \<in> set (fst (find_positions_to_remove e
        (Some \<lparr>active = a, title_cfg = Some delays\<rparr>) s))"
    obtain res s' where l: "remove_loop e delays (secretary_types @ additionalTypes) [] s = (res, s')"
      by (cases "remove_loop e delays (secretary_types @ additionalTypes) [] s")
    show False
    proof (cases res)
      case (Inl ex)
      with m l show False by (simp add: find_positions_to_remove_loop)
    next
      case (Inr r)
      with m l have "p \<in> set r" by (simp add: find_positions_to_remove_loop)
      with l Inr have "p \<in> set [] \<or> effective_delay delays p \<noteq> None"
        using remove_loop_members by blast
      with none show False by simp
    qed
  qed
  have 4: "find_positions_to_remove e (Some \<lparr>active = a, title_cfg = Some delays\<rparr>) s =
      find_positions_to_remove e (Some \<lparr>active = a, title_cfg = Some (AList.delete p delays)\<rparr>) s"
    unfolding find_positions_to_remove_loop
    using remove_loop_effective [OF eff] by simp
  from 1 2 3 4 show ?thesis by blast
qed

text \<open>Science, with the delay 0 and a timer 120 seconds old, is not reported.\<close>

theorem zero_delay_unconfigured_witness:
  "remove_due evict_env evict_delays ''science'' (init_state 0) = (Inr False, init_state 0) \<and>
   ''science'' \<notin> set (fst (find_positions_to_remove evict_env
       (Some \<lparr>active = Some True, title_cfg = Some evict_delays\<rparr>) (init_state 0))) \<and>
   fst (find_positions_to_remove evict_env
       (Some \<lparr>active = Some True, title_cfg = Some evict_delays\<rparr>) (init_state 0)) = [''military'']"
proof -
  have z: "map_of evict_delays ''science'' = Some 0"
    by (simp add: evict_delays_def)
  have r: "fst (find_positions_to_remove evict_env
       (Some \<lparr>active = Some True, title_cfg = Some evict_delays\<rparr>) (init_state 0)) = [''military'']"
    by (simp add: find_positions_to_remove_def evict_delays_def remove_evals prog_evals
        evict_env_def env_evals)
  show ?thesis
    using zero_delay_unconfigured [OF z, of evict_env "init_state 0" "Some True"] r by simp
qed

subsection \<open>The scan as a whole\<close>

lemma remove_due_returns:
  assumes "remove_due e delays p s = (Inr due, s2)" and "map_of delays p = Some D" and "D \<noteq> 0"
  shows "\<bar>D div 86400\<bar> \<le> 999999999 \<and> last_approve s p \<noteq> None"
  using assms
  by (auto simp: remove_due_def timedelta_seconds_def split: if_splits option.splits)

lemma remove_loop_append:
  "remove_loop e delays (xs @ ys) acc s =
     bnd (remove_loop e delays xs acc) (\<lambda>acc'. remove_loop e delays ys acc') s"
proof (induction xs arbitrary: acc s)
  case Nil
  show ?case by (simp add: bnd_def ret_def)
next
  case (Cons x xs)
  show ?case
    by (cases "remove_due e delays x s") (auto simp: bnd_def Cons split: sum.splits)
qed

lemma remove_loop_timers:
  "q \<notin> set ps \<Longrightarrow> last_approve (snd (remove_loop e delays ps acc s)) q = last_approve s q"
proof (induction ps arbitrary: acc s)
  case Nil
  show ?case by (simp add: ret_def)
next
  case (Cons p ps)
  then have qp: "q \<noteq> p" and q: "q \<notin> set ps" by auto
  obtain res s1 where d: "remove_due e delays p s = (res, s1)"
    by (cases "remove_due e delays p s")
  have t1: "last_approve s1 q = last_approve s q"
    using remove_due_other_timers [OF qp, of e delays s] d by simp
  show ?case
  proof (cases res)
    case (Inl ex)
    with d t1 show ?thesis by (simp add: bnd_def)
  next
    case (Inr due)
    with d t1 Cons.IH [OF q] show ?thesis by (simp add: bnd_def)
  qed
qed

lemma remove_loop_result:
  "remove_loop e delays ps acc s = (Inr r, s') \<Longrightarrow> \<exists>r'. r = acc @ r' \<and> set r' \<subseteq> set ps"
proof (induction ps arbitrary: acc s)
  case Nil
  then show ?case by (simp add: ret_def)
next
  case (Cons p ps)
  obtain res s1 where d: "remove_due e delays p s = (res, s1)"
    by (cases "remove_due e delays p s")
  show ?case
  proof (cases res)
    case (Inl ex)
    with d Cons.prems show ?thesis by (simp add: bnd_def)
  next
    case (Inr due)
    with d Cons.prems
    have "remove_loop e delays ps (if due then acc @ [p] else acc) s1 = (Inr r, s')"
      by (simp add: bnd_def)
    then obtain r' where "r = (if due then acc @ [p] else acc) @ r'" and "set r' \<subseteq> set ps"
      using Cons.IH by blast
    then show ?thesis
      by (cases due) auto
  qed
qed

lemma remove_loop_turn:
  assumes run: "remove_loop e delays ps [] s = (Inr r, s')"
    and dist: "distinct ps" and mem: "p \<in> set ps"
  shows "\<exists>due s2.
     remove_due e delays p (snd (remove_loop e delays (takeWhile (\<lambda>q. q \<noteq> p) ps) [] s))
       = (Inr due, s2) \<and>
     (p \<in> set r \<longleftrightarrow> due) \<and>
     last_approve s' p = last_approve s2 p \<and>
     last_approve (snd (remove_loop e delays (takeWhile (\<lambda>q. q \<noteq> p) ps) [] s)) p
       = last_approve s p"
proof -
  let ?pre = "takeWhile (\<lambda>q. q \<noteq> p) ps"
  let ?rest = "dropWhile (\<lambda>q. q \<noteq> p) ps"
  from mem have "?rest \<noteq> []"
    by (simp add: dropWhile_eq_Nil_conv)
  moreover from this have "hd ?rest = p"
    using hd_dropWhile [of "\<lambda>q. q \<noteq> p" ps] by simp
  ultimately obtain post where rest: "?rest = p # post"
    by (cases ?rest) auto
  have ps: "ps = ?pre @ p # post"
    using takeWhile_dropWhile_id [of "\<lambda>q. q \<noteq> p" ps] rest by simp
  have p_pre: "p \<notin> set ?pre"
    by (auto dest: set_takeWhileD)
  have p_post: "p \<notin> set post"
    using dist ps by (metis distinct.simps(2) distinct_append)
  obtain res1 sp where l1: "remove_loop e delays ?pre [] s = (res1, sp)"
    by (cases "remove_loop e delays ?pre [] s")
  from run have run': "bnd (remove_loop e delays ?pre []) (\<lambda>acc'. remove_loop e delays (p # post) acc') s
      = (Inr r, s')"
    using remove_loop_append [of e delays ?pre "p # post" "[]" s] ps by simp
  then obtain r1 where res1: "res1 = Inr r1"
    using l1 by (cases res1) (simp_all add: bnd_def)
  have r1: "set r1 \<subseteq> set ?pre"
    using remove_loop_result [of e delays ?pre "[]" s r1 sp] l1 res1 by auto
  from run' l1 res1 have l2: "remove_loop e delays (p # post) r1 sp = (Inr r, s')"
    by (simp add: bnd_def)
  obtain res2 s2 where d: "remove_due e delays p sp = (res2, s2)"
    by (cases "remove_due e delays p sp")
  from l2 d obtain due where res2: "res2 = Inr due"
    by (cases res2) (simp_all add: bnd_def)
  from l2 d res2
  have l3: "remove_loop e delays post (if due then r1 @ [p] else r1) s2 = (Inr r, s')"
    by (simp add: bnd_def)
  then obtain r' where r: "r = (if due then r1 @ [p] else r1) @ r'" and r': "set r' \<subseteq> set post"
    using remove_loop_result by blast
  have "p \<notin> set r1" using r1 p_pre by blast
  moreover have "p \<notin> set r'" using r' p_post by blast
  ultimately have iff: "p \<in> set r \<longleftrightarrow> due"
    unfolding r by (cases due) auto
  have t_end: "last_approve s' p = last_approve s2 p"
    using remove_loop_timers [OF p_post, of e delays "if due then r1 @ [p] else r1" s2] l3
    by simp
  have t_turn: "last_approve sp p = last_approve s p"
    using remove_loop_timers [OF p_pre, of e delays "[]" s] l1 by simp
  from d res2 iff t_end t_turn l1 show ?thesis
    by simp
qed


text \<open>
  The loop ends without an exception when no search for a template raises, every
  configured delay is a number of seconds \<open>timedelta\<close> accepts, and every position type
  has a timer.
\<close>

lemma remove_due_no_raise:
  assumes probes: "\<And>name h. \<exists>found. find_template e name h = Inr found"
    and range: "\<And>D. map_of delays p = Some D \<Longrightarrow> \<bar>D div 86400\<bar> \<le> 999999999"
    and timer: "last_approve s p \<noteq> None"
  shows "\<exists>due s1. remove_due e delays p s = (Inr due, s1) \<and>
           (\<forall>q. last_approve s q \<noteq> None \<longrightarrow> last_approve s1 q \<noteq> None)"
proof -
  obtain v where v: "find_template e (''vacant-'' @ p) (trace s) = Inr v"
    using probes by blast
  obtain i where i: "find_template e p (trace s @ [FindTemplate (''vacant-'' @ p)]) = Inr i"
    using probes by blast
  show ?thesis
    using range timer v i
    by (auto simp: remove_due_def timedelta_seconds_def prog_evals touch_last_approve_def
        split: option.splits)
qed

lemma remove_loop_no_raise:
  assumes probes: "\<And>name h. \<exists>found. find_template e name h = Inr found"
    and range: "\<And>p D. map_of delays p = Some D \<Longrightarrow> \<bar>D div 86400\<bar> \<le> 999999999"
  shows "\<forall>p\<in>set ps. last_approve s p \<noteq> None \<Longrightarrow>
         \<exists>r s'. remove_loop e delays ps acc s = (Inr r, s')"
proof (induction ps arbitrary: acc s)
  case Nil
  show ?case by (simp add: ret_def)
next
  case (Cons p ps)
  then have "last_approve s p \<noteq> None" by simp
  with probes range obtain due s1 where d: "remove_due e delays p s = (Inr due, s1)"
    and keep: "\<forall>q. last_approve s q \<noteq> None \<longrightarrow> last_approve s1 q \<noteq> None"
    using remove_due_no_raise [of e delays p s] by blast
  from Cons.prems keep have "\<forall>p\<in>set ps. last_approve s1 p \<noteq> None"
    by simp
  then obtain r s' where
    "remove_loop e delays ps (if due then acc @ [p] else acc) s1 = (Inr r, s')"
    using Cons.IH by blast
  with d show ?case
    by (simp add: bnd_def)
qed

text \<open>
  Claim C8, as the code has it, on \<open>find_positions_to_remove\<close> as a whole. The loop over the
  seven position types has ended without an exception with the list \<open>r\<close>, the position
  \<open>p\<close> has a delay \<open>D\<close> other than 0 configured, and its timer reads \<open>t\<close> at the start.
  Then \<open>r\<close> is what the function returns, and the timer of \<open>p\<close> still reads \<open>t\<close> when the
  loop comes to \<open>p\<close>: the positions before it leave it alone. With \<open>d\<close> the time read at
  that moment less \<open>t\<close>, the position is in \<open>r\<close> if and only if \<open>d\<close> is at least \<open>D\<close>
  seconds, the vacancy template is not found and the icon of the position is found. If
  \<open>d\<close> is less, \<open>p\<close> is not in \<open>r\<close> and its timer is still \<open>t\<close> at the end. If \<open>d\<close> is at
  least \<open>D\<close> seconds and the position is vacant, \<open>p\<close> is not in \<open>r\<close> and its timer is the
  time read after the vacancy was found.
\<close>

theorem eviction_cooldown:
  assumes run: "remove_loop e delays (secretary_types @ additionalTypes) [] s = (Inr r, s')"
    and mem: "p \<in> set (secretary_types @ additionalTypes)"
    and delay: "map_of delays p = Some D" and nz: "D \<noteq> 0"
    and timer: "last_approve s p = Some t"
  shows "find_positions_to_remove e (Some \<lparr>active = a, title_cfg = Some delays\<rparr>) s = (r, s') \<and>
         last_approve (turn_state e delays p s) p = Some t \<and>
         (p \<in> set r \<longleftrightarrow>
            D * 1000000 \<le> now e (trace (turn_state e delays p s)) - t \<and>
            find_template e (''vacant-'' @ p) (trace (turn_state e delays p s)) = Inr None \<and>
            (\<exists>icon. find_template e p
               (trace (turn_state e delays p s) @ [FindTemplate (''vacant-'' @ p)])
               = Inr (Some icon))) \<and>
         (now e (trace (turn_state e delays p s)) - t < D * 1000000 \<longrightarrow>
            p \<notin> set r \<and> last_approve s' p = Some t) \<and>
         (D * 1000000 \<le> now e (trace (turn_state e delays p s)) - t \<and>
          (\<exists>v. find_template e (''vacant-'' @ p) (trace (turn_state e delays p s)) = Inr (Some v)) \<longrightarrow>
            p \<notin> set r \<and>
            last_approve s' p =
              Some (now e (trace (turn_state e delays p s) @ [FindTemplate (''vacant-'' @ p)])))"
proof -
  let ?sp = "turn_state e delays p s"
  let ?d = "now e (trace ?sp) - t"
  obtain due s2 where d: "remove_due e delays p ?sp = (Inr due, s2)"
    and iff: "p \<in> set r \<longleftrightarrow> due"
    and t_end: "last_approve s' p = last_approve s2 p"
    and t_turn: "last_approve ?sp p = last_approve s p"
    using remove_loop_turn [OF run types_distinct mem] unfolding turn_state_def by blast
  have range: "\<bar>D div 86400\<bar> \<le> 999999999"
    using remove_due_returns [OF d delay nz] by simp
  have timer': "last_approve ?sp p = Some (now e (trace ?sp) - ?d)"
    using t_turn timer by simp
  note body = remove_due_cooldown [OF delay nz range timer']
  have 1: "find_positions_to_remove e (Some \<lparr>active = a, title_cfg = Some delays\<rparr>) s = (r, s')"
    using run by (simp add: find_positions_to_remove_loop)
  have 2: "last_approve ?sp p = Some t"
    using t_turn timer by simp
  have 3: "p \<in> set r \<longleftrightarrow>
      D * 1000000 \<le> ?d \<and>
      find_template e (''vacant-'' @ p) (trace ?sp) = Inr None \<and>
      (\<exists>icon. find_template e p (trace ?sp @ [FindTemplate (''vacant-'' @ p)]) = Inr (Some icon))"
    using body iff d by simp
  have 4: "?d < D * 1000000 \<longrightarrow> p \<notin> set r \<and> last_approve s' p = Some t"
  proof
    assume early: "?d < D * 1000000"
    with body have "remove_due e delays p ?sp = (Inr False, ?sp)"
      by blast
    with d have "due = False" and "s2 = ?sp"
      by simp_all
    with iff t_end 2 show "p \<notin> set r \<and> last_approve s' p = Some t"
      by simp
  qed
  have 5: "D * 1000000 \<le> ?d \<and>
      (\<exists>v. find_template e (''vacant-'' @ p) (trace ?sp) = Inr (Some v)) \<longrightarrow>
      p \<notin> set r \<and>
      last_approve s' p = Some (now e (trace ?sp @ [FindTemplate (''vacant-'' @ p)]))"
  proof
    assume vac: "D * 1000000 \<le> ?d \<and>
      (\<exists>v. find_template e (''vacant-'' @ p) (trace ?sp) = Inr (Some v))"
    with body have "remove_due e delays p ?sp =
        (Inr False,
         ?sp\<lparr>trace := trace ?sp @ [FindTemplate (''vacant-'' @ p)],
           last_approve := (last_approve ?sp)
             (p \<mapsto> now e (trace ?sp @ [FindTemplate (''vacant-'' @ p)]))\<rparr>)"
      by blast
    with d have "due = False"
      and "s2 = ?sp\<lparr>trace := trace ?sp @ [FindTemplate (''vacant-'' @ p)],
           last_approve := (last_approve ?sp)
             (p \<mapsto> now e (trace ?sp @ [FindTemplate (''vacant-'' @ p)]))\<rparr>"
      by simp_all
    with iff t_end
    show "p \<notin> set r \<and>
      last_approve s' p = Some (now e (trace ?sp @ [FindTemplate (''vacant-'' @ p)]))"
      by simp
  qed
  from 1 2 3 4 5 show ?thesis
    by (intro conjI)
qed

text \<open>An exception anywhere in the loop gives the empty list.\<close>

lemma find_positions_to_remove_raises:
  "remove_loop e delays (secretary_types @ additionalTypes) [] s = (Inl ex, s') \<Longrightarrow>
   find_positions_to_remove e (Some \<lparr>active = a, title_cfg = Some delays\<rparr>) s = ([], s')"
  by (simp add: find_positions_to_remove_loop)

text \<open>
  120 seconds after the timers were set, with the delays of \<open>evict_delays\<close>: the scan
  ends without an exception and reports military (60 seconds, icon found, not vacant); the
  vacant interior (60 seconds) is not reported and its timer is reset.
\<close>

lemma evict_run:
  "remove_loop evict_env evict_delays (secretary_types @ additionalTypes) [] (init_state 0) =
     (Inr [''military''],
      (init_state 0)\<lparr>trace := [FindTemplate ''vacant-interior'', FindTemplate ''vacant-military'',
          FindTemplate ''military''],
        last_approve := (last_approve (init_state 0))(''interior'' \<mapsto> 120000001)\<rparr>)"
  by (simp add: evict_delays_def remove_evals prog_evals evict_env_def env_evals)

lemma evict_turn:
  "turn_state evict_env evict_delays ''military'' (init_state 0) =
     (init_state 0)\<lparr>trace := [FindTemplate ''vacant-interior''],
        last_approve := (last_approve (init_state 0))(''interior'' \<mapsto> 120000001)\<rparr>"
  "turn_state evict_env evict_delays ''strategy'' (init_state 0) = init_state 0"
  "turn_state evict_env evict_delays ''interior'' (init_state 0) = init_state 0"
  by (simp_all add: turn_state_def evict_delays_def remove_evals prog_evals evict_env_def env_evals)

theorem eviction_cooldown_witness:
  "fst (find_positions_to_remove evict_env
     (Some \<lparr>active = Some True, title_cfg = Some evict_delays\<rparr>) (init_state 0)) = [''military''] \<and>
   last_approve (snd (find_positions_to_remove evict_env
     (Some \<lparr>active = Some True, title_cfg = Some evict_delays\<rparr>) (init_state 0))) ''interior''
     = Some 120000001"
proof -
  have mem: "''military'' \<in> set (secretary_types @ additionalTypes)"
    "''interior'' \<in> set (secretary_types @ additionalTypes)"
    by (simp_all add: secretary_types_def additionalTypes_def)
  have m: "map_of evict_delays ''military'' = Some 60" "map_of evict_delays ''interior'' = Some 60"
    by (simp_all add: evict_delays_def)
  have nz: "(60::int) \<noteq> 0" by simp
  have la: "last_approve (init_state 0) ''military'' = Some 0"
    "last_approve (init_state 0) ''interior'' = Some 0"
    by (simp_all add: env_evals)
  note military = eviction_cooldown [OF evict_run mem(1) m(1) nz la(1), of "Some True"]
  note interior = eviction_cooldown [OF evict_run mem(2) m(2) nz la(2), of "Some True"]
  have v: "find_template evict_env (''vacant-'' @ ''interior'') [] = Inr (Some (200, 300))"
    "now evict_env [] = 120000000"
    "now evict_env [FindTemplate ''vacant-interior''] = 120000001"
    by (simp_all add: evict_env_def env_evals)
  have t0: "trace (init_state 0) = []"
    by (simp add: env_evals)
  from military have 1: "fst (find_positions_to_remove evict_env
     (Some \<lparr>active = Some True, title_cfg = Some evict_delays\<rparr>) (init_state 0)) = [''military'']"
    by simp
  from interior v have 2: "last_approve (snd (find_positions_to_remove evict_env
     (Some \<lparr>active = Some True, title_cfg = Some evict_delays\<rparr>) (init_state 0))) ''interior''
     = Some 120000001"
    by (simp add: evict_turn t0)
  from 1 2 show ?thesis by simp
qed

text \<open>
  Claim C8 as stated fails where the scan does not end: military has the delay 60, a timer
  120 seconds old, is not vacant and its icon is found, but the delay configured for
  strategy, which the loop reads first, makes \<open>timedelta\<close> raise \<open>OverflowError\<close>; the
  \<open>try\<close> around the whole loop returns the empty list. With the delay of military alone
  the position is reported.
\<close>

theorem eviction_cooldown_counterexample:
  "map_of overflow_delays ''military'' = Some 60 \<and>
   last_approve (init_state 0) ''military'' = Some (now evict_env [] - 120000000) \<and>
   (60 :: int) * 1000000 \<le> 120000000 \<and>
   find_template evict_env ''vacant-military'' [] = Inr None \<and>
   find_template evict_env ''military'' [FindTemplate ''vacant-military''] = Inr (Some (200, 300)) \<and>
   remove_loop evict_env overflow_delays (secretary_types @ additionalTypes) [] (init_state 0)
     = (Inl OverflowError, init_state 0) \<and>
   find_positions_to_remove evict_env
     (Some \<lparr>active = Some True, title_cfg = Some overflow_delays\<rparr>) (init_state 0)
     = ([], init_state 0) \<and>
   fst (find_positions_to_remove evict_env
     (Some \<lparr>active = Some True, title_cfg = Some [(''military'', 60)]\<rparr>) (init_state 0))
     = [''military'']"
  by (simp add: find_positions_to_remove_def overflow_delays_def remove_evals prog_evals
      evict_env_def env_evals)

section \<open>Exceptions in \<open>process_secretary_position\<close>\<close>

lemma quiet_append: "quiet e h (xs @ ys) \<longleftrightarrow> quiet e h xs \<and> quiet e (h @ xs) ys"
  by (induction xs arbitrary: h) auto

lemma quiet_local: "list_all caught_locally evs \<Longrightarrow> quiet e h evs"
  by (induction evs arbitrary: h) auto

lemma stops_ret: "stops_at_raise e s (ret a s)"
  by (simp add: stops_at_raise_def ret_def new_events_def)

lemma stops_touch: "stops_at_raise e s (touch_last_approve e name s)"
  by (simp add: stops_at_raise_def touch_last_approve_def new_events_def)

lemma stops_call:
  assumes "\<not> caught_locally ev" and "\<And>h. raised e ev h = err (answer h)"
  shows "stops_at_raise e s (call ev answer s)"
  using assms
  by (cases "answer (trace s)") (simp_all add: stops_at_raise_def call_def new_events_def err_def)

lemma stops_trans:
  assumes 1: "stops_at_raise e s (Inr a, s1)" and 2: "stops_at_raise e s1 (res, s2)"
  shows "stops_at_raise e s (res, s2)"
proof -
  let ?e1 = "new_events s s1" and ?e2 = "new_events s1 s2"
  from 1 have t1: "trace s1 = trace s @ ?e1" and q1: "quiet e (trace s) ?e1"
    by (simp_all add: stops_at_raise_def)
  from 2 have t2: "trace s2 = trace s1 @ ?e2"
    by (simp add: stops_at_raise_def)
  have ne: "new_events s s2 = ?e1 @ ?e2"
    using t1 t2 by (simp add: new_events_def) (metis append_eq_conv_conj append.assoc)
  have tr: "trace s2 = trace s @ new_events s s2"
    using t1 t2 ne by simp
  show ?thesis
  proof (cases res)
    case (Inr b)
    with 2 have "quiet e (trace s1) ?e2"
      by (simp add: stops_at_raise_def)
    with q1 t1 have "quiet e (trace s) (?e1 @ ?e2)"
      by (simp add: quiet_append)
    with Inr tr ne show ?thesis
      by (simp add: stops_at_raise_def)
  next
    case (Inl ex)
    with 2 have n2: "?e2 \<noteq> []" and q2: "quiet e (trace s1) (butlast ?e2)"
      and l2: "\<not> caught_locally (last ?e2)"
      and r2: "raised e (last ?e2) (trace s1 @ butlast ?e2) = Some ex"
      by (simp_all add: stops_at_raise_def)
    from n2 have bl: "butlast (?e1 @ ?e2) = ?e1 @ butlast ?e2" and la: "last (?e1 @ ?e2) = last ?e2"
      by (simp_all add: butlast_append)
    have "quiet e (trace s) (?e1 @ butlast ?e2)"
      using q1 q2 t1 by (simp add: quiet_append)
    with Inl tr ne n2 l2 r2 bl la t1 show ?thesis
      by (simp add: stops_at_raise_def)
  qed
qed

lemma stops_bnd:
  assumes "stops_at_raise e s (m s)" and "\<And>a s1. stops_at_raise e s1 (f a s1)"
  shows "stops_at_raise e s (bnd m f s)"
proof (cases "m s")
  case (Pair res s1)
  show ?thesis
  proof (cases res)
    case (Inl ex)
    with Pair assms(1) show ?thesis
      by (simp add: bnd_def stops_at_raise_def)
  next
    case (Inr a)
    with Pair assms(1) have "stops_at_raise e s (Inr a, s1)" by simp
    moreover have "stops_at_raise e s1 (f a s1)" by (rule assms(2))
    ultimately have "stops_at_raise e s (fst (f a s1), snd (f a s1))"
      using stops_trans [of e s a s1 "fst (f a s1)" "snd (f a s1)"] by simp
    with Pair Inr show ?thesis
      by (simp add: bnd_def)
  qed
qed

lemma stops_local:
  assumes "trace (snd (f s)) = trace s @ evs" and "list_all caught_locally evs"
  shows "stops_at_raise e s (lift f s)"
  using assms
  by (cases "f s") (simp add: stops_at_raise_def lift_def new_events_def quiet_local)


lemma exit_attempts_events:
  "\<exists>evs. trace (snd (exit_attempts n e s)) = trace s @ evs \<and> list_all caught_locally evs"
proof (induction n arbitrary: s)
  case 0
  show ?case by (simp add: ret_def)
next
  case (Suc n)
  show ?case
  proof (cases "attempt_fails e (trace s)")
    case True
    obtain evs where "trace (snd (exit_attempts n e (s\<lparr>trace := trace s @ attempt_events\<rparr>)))
        = trace (s\<lparr>trace := trace s @ attempt_events\<rparr>) @ evs"
      and "list_all caught_locally evs"
      using Suc.IH by blast
    then have "trace (snd (exit_attempts (Suc n) e s)) = trace s @ (attempt_events @ evs) \<and>
        list_all caught_locally (attempt_events @ evs)"
      unfolding exit_attempts_fails [OF True] by (simp add: attempt_events_def)
    then show ?thesis by blast
  next
    case False
    then show ?thesis
      by (auto simp: attempt_fails_def verify_secretary_menu_def prog_evals
          split: sum.splits option.splits unit.splits)
  qed
qed

lemma stops_exit: "stops_at_raise e s (lift (exit_to_secretary_menu e) s)"
proof -
  obtain evs where "trace (snd (exit_attempts 10 e s)) = trace s @ evs"
    and l: "list_all caught_locally evs"
    using exit_attempts_events by blast
  then have "trace (snd (exit_to_secretary_menu e s)) = trace s @ evs"
    by (simp add: trace_exit_to_secretary_menu)
  then show ?thesis using l by (rule stops_local)
qed

lemma stops_find_buttons: "stops_at_raise e s (lift (find_buttons t e) s)"
proof -
  have "trace (snd (find_buttons t e s)) = trace s @ [FindAllTemplates t]"
    by (simp add: find_buttons_state)
  then show ?thesis by (rule stops_local) simp
qed

lemmas stops_intros = stops_bnd stops_ret stops_touch stops_call stops_exit

lemma stops_manual_pause: "stops_at_raise e s (manual_pause e s)"
  unfolding manual_pause_def
  by (auto intro!: stops_intros)

lemma stops_reject_candidate: "stops_at_raise e s (reject_candidate e name a s)"
  unfolding reject_candidate_def find_reject_buttons_def
  by (rule stops_bnd, rule stops_find_buttons) (auto intro!: stops_intros split: list.splits)

lemma stops_handle_candidate: "stops_at_raise e s (handle_candidate e alliances name a img s)"
  unfolding handle_candidate_def
  by (auto intro!: stops_intros stops_manual_pause stops_reject_candidate split: prod.splits)

lemma stops_admission_iteration: "stops_at_raise e s (admission_iteration e alliances name s)"
  unfolding admission_iteration_def find_accept_buttons_def
  by (auto intro!: stops_intros stops_find_buttons stops_handle_candidate
      split: option.splits list.splits flow.splits)

lemma stops_open_applicant_list: "stops_at_raise e s (open_applicant_list e name s)"
  unfolding open_applicant_list_def
  by (auto intro!: stops_intros)

lemma stops_scroll_to_top: "stops_at_raise e s (scroll_to_top e accept_locations s)"
  unfolding scroll_to_top_def
  by (auto intro!: stops_intros)

lemma stops_refl: "stops_at_raise e s (Inr a, s)"
  by (simp add: stops_at_raise_def new_events_def)

lemma stops_admission_loop:
  "admission_loop fuel e alliances name processed s = Some (res, s') \<Longrightarrow>
   stops_at_raise e s (res, s')"
proof (induction fuel arbitrary: processed s)
  case 0
  then show ?case by simp
next
  case (Suc fuel)
  show ?case
  proof (cases "processed < 5")
    case False
    with Suc.prems show ?thesis by (auto simp: stops_refl)
  next
    case True
    obtain r1 s1 where it: "admission_iteration e alliances name s = (r1, s1)"
      by (cases "admission_iteration e alliances name s")
    have st: "stops_at_raise e s (r1, s1)"
      using stops_admission_iteration [of e s alliances name] it by simp
    show ?thesis
    proof (cases r1)
      case (Inl ex)
      with True it Suc.prems have "res = Inl ex" "s' = s1" by simp_all
      with st Inl show ?thesis by (simp add: stops_at_raise_def)
    next
      case (Inr fl)
      show ?thesis
      proof (cases fl)
        case Break
        with True it Inr Suc.prems have "res = Inr processed" "s' = s1" by simp_all
        with st Inr show ?thesis by (simp add: stops_at_raise_def)
      next
        case Continue
        with True it Inr Suc.prems
        have "admission_loop fuel e alliances name processed s1 = Some (res, s')" by simp
        then have rest: "stops_at_raise e s1 (res, s')" by (rule Suc.IH)
        from st Inr have "stops_at_raise e s (Inr fl, s1)" by simp
        then show ?thesis using rest by (rule stops_trans)
      next
        case Next
        with True it Inr Suc.prems
        have "admission_loop fuel e alliances name (processed + 1) s1 = Some (res, s')" by simp
        then have rest: "stops_at_raise e s1 (res, s')" by (rule Suc.IH)
        from st Inr have "stops_at_raise e s (Inr fl, s1)" by simp
        then show ?thesis using rest by (rule stops_trans)
      qed
    qed
  qed
qed

lemma stops_try:
  assumes "process_secretary_position_try fuel e alliances name s = Some (res, s')"
  shows "stops_at_raise e s (res, s')"
proof -
  obtain r1 s1 where o: "open_applicant_list e name s = (r1, s1)"
    by (cases "open_applicant_list e name s")
  have st1: "stops_at_raise e s (r1, s1)"
    using stops_open_applicant_list [of e s name] o by simp
  show ?thesis
  proof (cases r1)
    case (Inl ex)
    with o assms have "res = Inl ex" "s' = s1"
      by (simp_all add: process_secretary_position_try_def)
    with st1 Inl show ?thesis by (simp add: stops_at_raise_def)
  next
    case (Inr early)
    show ?thesis
    proof (cases early)
      case (Some b)
      with o Inr assms have "res = Inr b" "s' = s1"
        by (simp_all add: process_secretary_position_try_def)
      with st1 Inr show ?thesis by (simp add: stops_at_raise_def)
    next
      case None
      obtain accept_locations s2 where fa: "find_accept_buttons e s1 = (accept_locations, s2)"
        by (cases "find_accept_buttons e s1")
      have "stops_at_raise e s1 (lift (find_buttons ''accept'' e) s1)"
        by (rule stops_find_buttons)
      with fa have st2: "stops_at_raise e s1 (Inr accept_locations, s2)"
        by (simp add: lift_def find_accept_buttons_def)
      from st1 Inr have "stops_at_raise e s (Inr early, s1)" by simp
      then have st12: "stops_at_raise e s (Inr accept_locations, s2)"
        using st2 by (rule stops_trans)
      let ?loop = "if accept_locations \<noteq> [] then
                  (case scroll_to_top e accept_locations s2 of
                     (Inl ex, s3) \<Rightarrow> Some (Inl ex, s3)
                   | (Inr _, s3) \<Rightarrow> admission_loop fuel e alliances name 0 s3)
                else Some (Inr 0, s2)"
      from assms o Inr None fa have body:
        "(case ?loop of
            None \<Rightarrow> None
          | Some (Inl ex, s4) \<Rightarrow> Some (Inl ex, s4)
          | Some (Inr _, s4) \<Rightarrow>
              (case exit_to_secretary_menu e s4 of (ok, s5) \<Rightarrow> Some (Inr ok, s5)))
         = Some (res, s')"
        by (simp add: process_secretary_position_try_def)
      then obtain r4 s4 where l: "?loop = Some (r4, s4)"
        by (cases ?loop) auto
      have st4: "stops_at_raise e s2 (r4, s4)"
      proof (cases "accept_locations = []")
        case True
        with l show ?thesis by (auto simp: stops_refl)
      next
        case False
        obtain r3 s3 where sc: "scroll_to_top e accept_locations s2 = (r3, s3)"
          by (cases "scroll_to_top e accept_locations s2")
        have st3: "stops_at_raise e s2 (r3, s3)"
          using stops_scroll_to_top [of e s2 accept_locations] sc by simp
        show ?thesis
        proof (cases r3)
          case (Inl ex)
          with False l sc have "r4 = Inl ex" "s4 = s3" by simp_all
          with st3 Inl show ?thesis by (simp add: stops_at_raise_def)
        next
          case (Inr u)
          with False l sc have "admission_loop fuel e alliances name 0 s3 = Some (r4, s4)"
            by simp
          then have rest: "stops_at_raise e s3 (r4, s4)" by (rule stops_admission_loop)
          from st3 Inr have "stops_at_raise e s2 (Inr u, s3)" by simp
          then show ?thesis using rest by (rule stops_trans)
        qed
      qed
      have st24: "stops_at_raise e s (r4, s4)"
        using st12 st4 by (rule stops_trans)
      show ?thesis
      proof (cases r4)
        case (Inl ex)
        with body l have "res = Inl ex" "s' = s4" by simp_all
        with st24 Inl show ?thesis by (simp add: stops_at_raise_def)
      next
        case (Inr n)
        with body l have r: "(res, s') = (Inr (fst (exit_to_secretary_menu e s4)),
            snd (exit_to_secretary_menu e s4))"
          by (simp add: case_prod_unfold)
        have "stops_at_raise e s4 (lift (exit_to_secretary_menu e) s4)"
          by (rule stops_exit)
        then have rest: "stops_at_raise e s4 (res, s')"
          using r by (simp add: lift_def case_prod_unfold)
        from st24 Inr have "stops_at_raise e s (Inr n, s4)" by simp
        then show ?thesis using rest by (rule stops_trans)
      qed
    qed
  qed
qed

lemma admission_loop_more_fuel:
  "admission_loop fuel e alliances name processed s = Some r \<Longrightarrow>
   admission_loop (fuel + k) e alliances name processed s = Some r"
proof (induction fuel arbitrary: processed s)
  case 0
  then show ?case by simp
next
  case (Suc fuel)
  show ?case
  proof (cases "processed < 5")
    case False
    with Suc.prems show ?thesis by simp
  next
    case True
    obtain r1 s1 where it: "admission_iteration e alliances name s = (r1, s1)"
      by (cases "admission_iteration e alliances name s")
    show ?thesis
    proof (cases r1)
      case (Inl ex)
      with True it Suc.prems show ?thesis by simp
    next
      case (Inr fl)
      show ?thesis
      proof (cases fl)
        case Break
        with True it Inr Suc.prems show ?thesis by simp
      next
        case Continue
        with True it Inr Suc.prems
        have "admission_loop fuel e alliances name processed s1 = Some r" by simp
        then have "admission_loop (fuel + k) e alliances name processed s1 = Some r"
          by (rule Suc.IH)
        with True it Inr Continue show ?thesis by simp
      next
        case Next
        with True it Inr Suc.prems
        have "admission_loop fuel e alliances name (processed + 1) s1 = Some r" by simp
        then have "admission_loop (fuel + k) e alliances name (processed + 1) s1 = Some r"
          by (rule Suc.IH)
        with True it Inr Next show ?thesis by simp
      qed
    qed
  qed
qed

lemma try_more_fuel:
  assumes "process_secretary_position_try fuel e alliances name s = Some r"
  shows "process_secretary_position_try (fuel + k) e alliances name s = Some r"
  using assms admission_loop_more_fuel [of fuel e alliances name 0 _ _ k]
  by (auto simp: process_secretary_position_try_def
      split: prod.splits sum.splits option.splits if_splits)


lemma quiet_butlast: "quiet e h evs \<Longrightarrow> quiet e h (butlast evs)"
proof (cases "evs = []")
  case True
  then show ?thesis by simp
next
  case False
  assume "quiet e h evs"
  then have "quiet e h (butlast evs @ [last evs])"
    using False by simp
  then show ?thesis
    unfolding quiet_append by simp
qed

lemma process_secretary_position_raised:
  assumes "process_secretary_position_try fuel e alliances name s = Some (Inl ex, s')"
  shows "process_secretary_position (fuel + k) e alliances name s
     = Some (exit_to_secretary_menu e s')"
  using try_more_fuel [OF assms, of k] by (simp add: process_secretary_position_def)

text \<open>
  Claim C9, as the code has it. When the body of the \<open>try\<close> has ended, returning or
  raising, it has only added calls to the trace, and every call before its last either
  returned or had its exception caught where it was made. The body raised if and only if
  one of its calls raised an exception that is not caught where the call is made. That
  call is then the last call of the body: nothing of steps 1 to 4 follows it. The routine
  does not raise; with this fuel or more it returns what \<open>exit_to_secretary_menu\<close>, run
  from the state of the raise, returns: true when the recovery succeeds and false when it
  fails.
\<close>

theorem exception_recovery:
  assumes "process_secretary_position_try fuel e alliances name s = Some (res, s')"
  shows "trace s' = trace s @ new_events s s' \<and>
         quiet e (trace s) (butlast (new_events s s')) \<and>
         ((\<exists>ex. res = Inl ex) \<longleftrightarrow> \<not> quiet e (trace s) (new_events s s')) \<and>
         (\<forall>ex. res = Inl ex \<longrightarrow>
            new_events s s' \<noteq> [] \<and>
            \<not> caught_locally (last (new_events s s')) \<and>
            raised e (last (new_events s s')) (trace s @ butlast (new_events s s')) = Some ex \<and>
            (\<forall>k. process_secretary_position (fuel + k) e alliances name s
                 = Some (exit_to_secretary_menu e s')))"
proof -
  let ?evs = "new_events s s'"
  have st: "stops_at_raise e s (res, s')"
    using assms by (rule stops_try)
  then have 1: "trace s' = trace s @ ?evs"
    by (simp add: stops_at_raise_def)
  show ?thesis
  proof (cases res)
    case (Inr b)
    with st have q: "quiet e (trace s) ?evs"
      by (simp add: stops_at_raise_def)
    with Inr 1 quiet_butlast [OF q] show ?thesis
      by simp
  next
    case (Inl ex)
    with st have n: "?evs \<noteq> []" and q: "quiet e (trace s) (butlast ?evs)"
      and l: "\<not> caught_locally (last ?evs)"
      and r: "raised e (last ?evs) (trace s @ butlast ?evs) = Some ex"
      by (simp_all add: stops_at_raise_def)
    have "\<not> quiet e (trace s) (butlast ?evs @ [last ?evs])"
      unfolding quiet_append using l r by simp
    with n have nq: "\<not> quiet e (trace s) ?evs"
      by simp
    have rec: "\<forall>k. process_secretary_position (fuel + k) e alliances name s
        = Some (exit_to_secretary_menu e s')"
      using assms Inl process_secretary_position_raised by blast
    from Inl 1 q nq n l r rec show ?thesis
      by simp
  qed
qed

text \<open>
  The text extraction raises in the first pass of the admission loop: the routine returns
  true where the anchor is found, and false where it is never found.
\<close>

lemma faulty_try:
  "process_secretary_position_try 1 faulty_env [''ABC''] ''science'' (init_state 0) =
     Some (Inl (PyException ''text extraction failed''),
       (init_state 0)\<lparr>trace :=
           [FindAndTapTemplate ''science'' None, HumanDelay tap_delay 1,
            FindTemplate ''full_list'', FindAndTapTemplate ''list'' (Some list_timeout),
            FindAllTemplates ''accept'',
            TakeScreenshot, Imread, FindAllTemplates ''accept'',
            GetTextRegions (100, 200) 0, ExtractText (0, 0, 0, 0) 0]\<rparr>)"
  by (simp add: routine_evals prog_evals faulty_env_def abc_env_def env_evals)

lemma lost_try:
  "process_secretary_position_try 1 lost_env [''ABC''] ''science'' (init_state 0) =
     Some (Inl (PyException ''text extraction failed''),
       (init_state 0)\<lparr>trace :=
           [FindAndTapTemplate ''science'' None, HumanDelay tap_delay 1,
            FindTemplate ''full_list'', FindAndTapTemplate ''list'' (Some list_timeout),
            FindAllTemplates ''accept'',
            TakeScreenshot, Imread, FindAllTemplates ''accept'',
            GetTextRegions (100, 200) 0, ExtractText (0, 0, 0, 0) 0]\<rparr>)"
  by (simp add: routine_evals prog_evals lost_env_def faulty_env_def abc_env_def env_evals)

theorem exception_recovery_witness:
  "map_option fst (process_secretary_position 1 faulty_env [''ABC''] ''science'' (init_state 0))
     = Some True \<and>
   map_option fst (process_secretary_position 1 lost_env [''ABC''] ''science'' (init_state 0))
     = Some False"
proof -
  let ?s' = "(init_state 0)\<lparr>trace :=
           [FindAndTapTemplate ''science'' None, HumanDelay tap_delay 1,
            FindTemplate ''full_list'', FindAndTapTemplate ''list'' (Some list_timeout),
            FindAllTemplates ''accept'',
            TakeScreenshot, Imread, FindAllTemplates ''accept'',
            GetTextRegions (100, 200) 0, ExtractText (0, 0, 0, 0) 0]\<rparr>"
  have f: "fst (exit_to_secretary_menu faulty_env ?s')"
    by (simp add: routine_evals prog_evals faulty_env_def abc_env_def env_evals numeral_eq_Suc)
  have l: "\<not> fst (exit_to_secretary_menu lost_env ?s')"
    by (simp add: routine_evals prog_evals lost_env_def faulty_env_def abc_env_def env_evals
        numeral_eq_Suc)
  have "process_secretary_position (1 + 0) faulty_env [''ABC''] ''science'' (init_state 0)
      = Some (exit_to_secretary_menu faulty_env ?s')"
    using exception_recovery [OF faulty_try] by blast
  moreover have "process_secretary_position (1 + 0) lost_env [''ABC''] ''science'' (init_state 0)
      = Some (exit_to_secretary_menu lost_env ?s')"
    using exception_recovery [OF lost_try] by blast
  ultimately show ?thesis
    using f l by simp
qed

text \<open>
  Claim C9 as stated fails for an exception of the template search in step 4. The search
  for the reject template raises at every call, and \<open>find_reject_buttons\<close> returns the
  empty list: the code goes on to the confirm control. Where the confirm control is never
  found the pass ends at \<open>continue\<close>, and the routine never returns although the anchor
  is there at every trace; where it is found, the code sets the timer of the position and
  counts the candidate.
\<close>

lemma swallow_iteration:
  "\<exists>s'. admission_iteration swallow_env [''ABC''] name s = (Inr Continue, s')"
  by (simp add: swallow_env_def stuck_env_def env_evals admission_iteration_def
      handle_candidate_def reject_candidate_def manual_pause_def find_accept_buttons_def
      find_reject_buttons_def find_buttons_def prog_evals)

lemma swallow_loop:
  "processed < 5 \<Longrightarrow> admission_loop fuel swallow_env [''ABC''] name processed s = None"
proof (induction fuel arbitrary: s)
  case 0
  show ?case by simp
next
  case (Suc fuel)
  obtain s' where "admission_iteration swallow_env [''ABC''] name s = (Inr Continue, s')"
    using swallow_iteration by blast
  with Suc show ?case by simp
qed

lemma swallow_env_sel:
  "find_and_tap_template swallow_env = (\<lambda>name t h. Inr (name \<noteq> ''confirm''))"
  "find_template swallow_env = (\<lambda>name h. Inr None)"
  "find_all_templates swallow_env =
     (\<lambda>name h. if name = ''accept'' then Inr [(100, 200)]
                else Inl (PyException ''template matching failed''))"
  "human_delay swallow_env = (\<lambda>t k h. Inr ())"
  "wait_for_image swallow_env = (\<lambda>name t h. Inr (Some (0, 0)))"
  by (simp_all add: swallow_env_def stuck_env_def quiet_env_def)

theorem swallowed_exception_counterexample:
  "(\<forall>h. raised swallow_env (FindAllTemplates ''reject'') h
      = Some (PyException ''template matching failed'')) \<and>
   (\<forall>h. anchored swallow_env h) \<and>
   reject_candidate swallow_env ''science'' (100, 200) (init_state 0) =
     (Inr Continue,
      (init_state 0)\<lparr>trace := [FindAllTemplates ''reject'', FindAndTapTemplate ''confirm'' None]\<rparr>) \<and>
   (\<forall>fuel. process_secretary_position fuel swallow_env [''ABC''] ''science'' (init_state 0) = None) \<and>
   reject_candidate swallow_confirm_env ''science'' (100, 200) (init_state 0) =
     (Inr Next,
      (init_state 0)\<lparr>trace := [FindAllTemplates ''reject'', FindAndTapTemplate ''confirm'' None],
        last_approve := (last_approve (init_state 0))(''science'' \<mapsto> 1002)\<rparr>)"
proof (intro conjI allI)
  fix h
  show "raised swallow_env (FindAllTemplates ''reject'') h
      = Some (PyException ''template matching failed'')"
    by (simp add: swallow_env_sel err_def)
  show "anchored swallow_env h"
    by (simp add: anchored_def swallow_env_sel)
next
  show "reject_candidate swallow_env ''science'' (100, 200) (init_state 0) =
     (Inr Continue,
      (init_state 0)\<lparr>trace := [FindAllTemplates ''reject'', FindAndTapTemplate ''confirm'' None]\<rparr>)"
    by (simp add: reject_candidate_def find_reject_buttons_def find_buttons_def prog_evals
        swallow_env_sel env_evals)
next
  fix fuel
  show "process_secretary_position fuel swallow_env [''ABC''] ''science'' (init_state 0) = None"
    by (simp add: process_secretary_position_def process_secretary_position_try_def
        open_applicant_list_def scroll_to_top_def find_accept_buttons_def find_buttons_def
        swallow_loop prog_evals swallow_env_sel)
next
  show "reject_candidate swallow_confirm_env ''science'' (100, 200) (init_state 0) =
     (Inr Next,
      (init_state 0)\<lparr>trace := [FindAllTemplates ''reject'', FindAndTapTemplate ''confirm'' None],
        last_approve := (last_approve (init_state 0))(''science'' \<mapsto> 1002)\<rparr>)"
    by (simp add: reject_candidate_def find_reject_buttons_def find_buttons_def prog_evals
        touch_last_approve_def swallow_confirm_env_def env_evals)
qed

end
